theory Spec2Isabelle
  imports Main
begin

section \<open>Python values\<close>

text \<open>
  The values that flow through \<^verbatim>\<open>fireo/models/model.py\<close> and
  \<^verbatim>\<open>fireo/utils/utils.py\<close>: \<^verbatim>\<open>None\<close>, booleans, integers, strings,
  lists and dictionaries. A dictionary is an association list in insertion order, as
  Python iterates it; a well-formed one has distinct keys.
\<close>

datatype pyval =
    PNone
  | PBool bool
  | PInt int
  | PStr string
  | PList "pyval list"
  | PDict "(string \<times> pyval) list"

type_synonym pydict = "(string \<times> pyval) list"

text \<open>\<^verbatim>\<open>d[k] = v\<close>: an existing key keeps its position, a new key goes to the end.\<close>

fun dict_set :: "string \<Rightarrow> 'v \<Rightarrow> (string \<times> 'v) list \<Rightarrow> (string \<times> 'v) list" where
  "dict_set k v [] = [(k, v)]"
| "dict_set k v ((k', v') # d) =
     (if k' = k then (k, v) # d else (k', v') # dict_set k v d)"

text \<open>Truth value of an object in a condition (\<^verbatim>\<open>if x:\<close>).\<close>

fun truthy :: "pyval \<Rightarrow> bool" where
  "truthy PNone = False"
| "truthy (PBool b) = b"
| "truthy (PInt i) = (i \<noteq> 0)"
| "truthy (PStr s) = (s \<noteq> [])"
| "truthy (PList vs) = (vs \<noteq> [])"
| "truthy (PDict kvs) = (kvs \<noteq> [])"

fun is_str :: "pyval \<Rightarrow> bool" where
  "is_str (PStr _) = True"
| "is_str _ = False"

fun is_dict_or_list :: "pyval \<Rightarrow> bool" where
  "is_dict_or_list (PList _) = True"
| "is_dict_or_list (PDict _) = True"
| "is_dict_or_list _ = False"

section \<open>utils.py\<close>

text \<open>\<^verbatim>\<open>s.split(sep)\<close> for a one-character separator: never the empty list.\<close>

fun split_on :: "char \<Rightarrow> string \<Rightarrow> string list" where
  "split_on sep [] = [[]]"
| "split_on sep (c # cs) =
     (if c = sep then [] # split_on sep cs
      else (case split_on sep cs of
              [] \<Rightarrow> [[c]]
            | w # ws \<Rightarrow> (c # w) # ws))"

text \<open>\<^verbatim>\<open>sep.join(xs)\<close> on a list of strings.\<close>

fun join :: "string \<Rightarrow> string list \<Rightarrow> string" where
  "join sep [] = []"
| "join sep [x] = x"
| "join sep (x # y # ys) = x @ sep @ join sep (y # ys)"

definition ref_path :: "string \<Rightarrow> string list" where
  "ref_path key = split_on (CHR ''/'') key"

text \<open>\<^verbatim>\<open>'/'.join(key.split('/')[:-1])\<close>\<close>

definition collection_path :: "string \<Rightarrow> string" where
  "collection_path key = join ''/'' (butlast (split_on (CHR ''/'') key))"

definition get_parent :: "string \<Rightarrow> string" where
  "get_parent key = collection_path key"


text \<open>
  \<^verbatim>\<open>get_id\<close>: the last segment of a string key; a value without a \<^verbatim>\<open>split\<close>
  method raises \<^verbatim>\<open>AttributeError\<close>, which the function catches and turns into
  \<^verbatim>\<open>None\<close>.
\<close>

fun get_id :: "pyval \<Rightarrow> pyval" where
  "get_id (PStr key) = PStr (last (split_on (CHR ''/'') key))"
| "get_id _ = PNone"

text \<open>
  \<^verbatim>\<open>remove_none_field\<close>. The list comprehension and the loop over
  \<^verbatim>\<open>values.items()\<close> (with its accumulator \<^verbatim>\<open>result\<close>) are the two auxiliary
  functions.
\<close>

fun remove_none_field :: "pyval \<Rightarrow> pyval"
  and remove_none_list :: "pyval list \<Rightarrow> pyval list"
  and remove_none_items :: "(string \<times> pyval) list \<Rightarrow> pydict \<Rightarrow> pydict" where
  "remove_none_field (PList vs) = PList (remove_none_list vs)"
| "remove_none_field PNone = PNone"
| "remove_none_field (PBool b) = PBool b"
| "remove_none_field (PInt i) = PInt i"
| "remove_none_field (PStr s) = PStr s"
| "remove_none_field (PDict kvs) = PDict (remove_none_items kvs [])"
| "remove_none_list [] = []"
| "remove_none_list (v # vs) = remove_none_field v # remove_none_list vs"
| "remove_none_items [] result = result"
| "remove_none_items ((k, v) # kvs) result =
     (if v \<noteq> PNone
      then remove_none_items kvs
             (dict_set k (if is_dict_or_list v then remove_none_field v else v) result)
      else remove_none_items kvs result)"

text \<open>
  No mapping at any depth of the value holds \<^verbatim>\<open>None\<close> under one of its keys.
  (A \<^verbatim>\<open>None\<close> that is an element of a list is not a key's value.)
\<close>

fun none_free :: "pyval \<Rightarrow> bool"
  and none_free_list :: "pyval list \<Rightarrow> bool"
  and none_free_items :: "(string \<times> pyval) list \<Rightarrow> bool" where
  "none_free (PList vs) = none_free_list vs"
| "none_free (PDict kvs) = none_free_items kvs"
| "none_free PNone = True"
| "none_free (PBool b) = True"
| "none_free (PInt i) = True"
| "none_free (PStr s) = True"
| "none_free_list [] = True"
| "none_free_list (v # vs) = (none_free v \<and> none_free_list vs)"
| "none_free_items [] = True"
| "none_free_items ((k, v) # kvs) = (v \<noteq> PNone \<and> none_free v \<and> none_free_items kvs)"

section \<open>Errors\<close>

text \<open>
  The exceptions of the model layer, as values. \<^verbatim>\<open>ModelSerializingWrappedError\<close> is
  raised with the path and the original error (\<^verbatim>\<open>raise ... from error\<close>);
  \<^verbatim>\<open>ExternalError\<close> stands for whatever else a field descriptor or the registry
  raises. \<^verbatim>\<open>RecursionError\<close> is what unbounded recursion ends in.

  \<open>OutsideModel\<close> is no exception of the program. The instance is a typed record here,
  and an assignment can give an attribute of the class a value that the record cannot
  hold (\<^verbatim>\<open>self.parent = 3\<close>, or an instance attribute that shadows a method): the
  program carries on with such an instance, this theory does not follow it, and says so
  with this value.
\<close>

datatype error =
    TypeError
  | AttributeError
  | IndexError
  | RecursionError
  | InvalidKey
  | AbstractNotInstantiate
  | ModelSerializingWrappedError "string list" error
  | ExternalError string
  | OutsideModel

text \<open>\<^verbatim>\<open>sep.join(xs)\<close> raises \<^verbatim>\<open>TypeError\<close> unless every item is a string.\<close>

fun str_items :: "pyval list \<Rightarrow> string list option" where
  "str_items [] = Some []"
| "str_items (PStr s # vs) = (case str_items vs of None \<Rightarrow> None | Some ss \<Rightarrow> Some (s # ss))"
| "str_items (_ # vs) = None"

definition py_join :: "string \<Rightarrow> pyval list \<Rightarrow> error + string" where
  "py_join sep vs = (case str_items vs of None \<Rightarrow> Inl TypeError | Some ss \<Rightarrow> Inr (join sep ss))"

text \<open>\<^verbatim>\<open>p in s\<close> on strings: \<open>p\<close> occurs in \<open>s\<close> as a contiguous piece.\<close>

fun str_contains :: "string \<Rightarrow> string \<Rightarrow> bool" where
  "str_contains p [] = (p = [])"
| "str_contains p (c # cs) = (take (length p) (c # cs) = p \<or> str_contains p cs)"

section \<open>The model class\<close>

text \<open>
  The attributes of a \<^verbatim>\<open>Model\<close> instance. The attributes the class body declares
  with a fixed role are typed components: \<open>parent\<close>, \<open>collection_name\<close>,
  \<open>key_attr\<close> (\<^verbatim>\<open>_key\<close>), \<open>update_doc\<close> (\<^verbatim>\<open>_update_doc\<close>) and
  \<open>field_changed\<close> (\<^verbatim>\<open>_field_changed\<close>). \<open>attrs\<close> is the instance dictionary
  for every other data attribute: the declared field slots, the bare \<^verbatim>\<open>id\<close>, and
  whatever else is assigned. \<^verbatim>\<open>collection_name\<close> is a string on every instance (the
  metaclass assigns it to each model that can be instantiated).
\<close>

record instance_attrs =
  attrs :: "string \<rightharpoonup> pyval"
  key_attr :: "string option"
  parent :: string
  collection_name :: string
  field_changed :: "string list"
  update_doc :: "string option"

text \<open>
  A field descriptor is an external collaborator: the model layer uses its name, its
  storage column, its class (for the \<^verbatim>\<open>isinstance\<close> tests) and its two conversions,
  which may raise. \<^verbatim>\<open>field_value(v, self)\<close> receives the owning instance.
\<close>

datatype field_kind = MapField | NestedModelField | IDField | OtherField

record field =
  name :: string
  db_column_name :: string
  kind :: field_kind
  get_value :: "pyval \<Rightarrow> bool \<Rightarrow> bool \<Rightarrow> bool \<Rightarrow> error + pyval"
  field_value :: "pyval \<Rightarrow> instance_attrs \<Rightarrow> error + pyval"

text \<open>
  \<^verbatim>\<open>_meta\<close>: the ordered registry \<^verbatim>\<open>field_list\<close> (field name to descriptor), the
  optional designated id field \<^verbatim>\<open>id\<close>, the two flags, and the registry's lookup by
  storage column, which the model layer only calls.
\<close>

record meta =
  field_list :: "(string \<times> field) list"
  id_field :: "(string \<times> field) option"
  abstract :: bool
  ignore_none_field :: bool
  get_field_by_column_name :: "string \<Rightarrow> error + field option"

record model = instance_attrs +
  meta :: meta

text \<open>
  Attribute names. The class body binds \<^verbatim>\<open>_id\<close> and \<^verbatim>\<open>key\<close> to properties,
  \<^verbatim>\<open>_meta\<close> to the registry object and the other names of \<open>class_members\<close> to
  methods; names that begin with two underscores belong to the object protocol. Every
  other name is a data attribute: one of the typed components, or a slot of the instance
  dictionary.
\<close>

definition typed_attributes :: "string list" where
  "typed_attributes =
     [''parent'', ''collection_name'', ''_key'', ''_update_doc'', ''_field_changed'']"

definition class_members :: "string list" where
  "class_members =
     [''_id'', ''key'', ''_meta'', ''from_dict'', ''to_dict'', ''to_db_dict'',
      ''populate_from_doc_dict'', ''_get_fields'', ''_set_key'',
      ''get_firestore_create_time'', ''get_firestore_update_time'',
      ''list_subcollections'', ''save'', ''upsert'', ''update'', ''_set_orig_attr'']"

definition data_attribute :: "string \<Rightarrow> bool" where
  "data_attribute k \<longleftrightarrow> k \<notin> set class_members \<and> take 2 k \<noteq> ''__''"

definition instance_slot :: "string \<Rightarrow> bool" where
  "instance_slot k \<longleftrightarrow> data_attribute k \<and> k \<notin> set typed_attributes"

text \<open>
  \<^verbatim>\<open>getattr(self, n)\<close> for a data attribute: a typed component as the Python value it
  is, or the entry of the instance dictionary.

  Modelled from the spec: the metaclass \<^verbatim>\<open>ModelMeta\<close> and the descriptors'
  \<^verbatim>\<open>contribute_to_model\<close> are not among the sources. A declared field slot that was
  never assigned reads as null (the specification speaks of a map field's current value
  being not null ``even if it was never assigned''), as the bare \<^verbatim>\<open>id\<close> does by
  the class body's \<^verbatim>\<open>id = None\<close>.
\<close>

definition getattr :: "'a instance_attrs_scheme \<Rightarrow> string \<Rightarrow> pyval" where
  "getattr m n =
     (if n = ''parent'' then PStr (parent m)
      else if n = ''collection_name'' then PStr (collection_name m)
      else if n = ''_key'' then (case key_attr m of None \<Rightarrow> PNone | Some k \<Rightarrow> PStr k)
      else if n = ''_update_doc'' then
        (case update_doc m of None \<Rightarrow> PNone | Some k \<Rightarrow> PStr k)
      else if n = ''_field_changed'' then PList (map PStr (field_changed m))
      else (case attrs m n of None \<Rightarrow> PNone | Some v \<Rightarrow> v))"

text \<open>
  \<^verbatim>\<open>Model.__setattr__\<close> and \<^verbatim>\<open>_set_orig_attr\<close>. \<open>track\<close> is the first statement
  of \<^verbatim>\<open>__setattr__\<close>, which every attribute assignment on the instance runs.
  \<^verbatim>\<open>_set_orig_attr\<close> is \<^verbatim>\<open>object.__setattr__\<close>, and what that does depends on the
  name:
  \<^item> \<^verbatim>\<open>key\<close> is a property without a setter: \<^verbatim>\<open>AttributeError\<close>;
  \<^item> \<^verbatim>\<open>_id\<close> is a property with a setter: \<open>id_setter\<close> runs;
  \<^item> a typed component takes the value, so assigning \<^verbatim>\<open>_field_changed\<close> replaces
    the log;
  \<^item> a slot of the instance dictionary takes the value;
  \<^item> \<^verbatim>\<open>_meta\<close>, a method name or a name of the object protocol would shadow what the
    class provides: \<open>OutsideModel\<close>, as for a typed component given a value outside
    its type.

  \<open>store_attr\<close> is \<^verbatim>\<open>object.__setattr__\<close> for every name but \<^verbatim>\<open>_id\<close>; the id
  setter, defined with it, completes it to \<open>set_orig_attr\<close>.
\<close>

definition track :: "model \<Rightarrow> string \<Rightarrow> model" where
  "track m key =
     (if key \<in> fst ` set (field_list (meta m))
      then m\<lparr>field_changed := field_changed m @ [key]\<rparr>
      else m)"

definition store_attr :: "model \<Rightarrow> string \<Rightarrow> pyval \<Rightarrow> error + model" where
  "store_attr m key value =
     (if key = ''key'' then Inl AttributeError
      else if key = ''parent'' then
        (case value of PStr s \<Rightarrow> Inr (m\<lparr>parent := s\<rparr>) | _ \<Rightarrow> Inl OutsideModel)
      else if key = ''collection_name'' then
        (case value of PStr s \<Rightarrow> Inr (m\<lparr>collection_name := s\<rparr>) | _ \<Rightarrow> Inl OutsideModel)
      else if key = ''_key'' then
        (case value of
           PNone \<Rightarrow> Inr (m\<lparr>key_attr := None\<rparr>)
         | PStr s \<Rightarrow> Inr (m\<lparr>key_attr := Some s\<rparr>)
         | _ \<Rightarrow> Inl OutsideModel)
      else if key = ''_update_doc'' then
        (case value of
           PNone \<Rightarrow> Inr (m\<lparr>update_doc := None\<rparr>)
         | PStr s \<Rightarrow> Inr (m\<lparr>update_doc := Some s\<rparr>)
         | _ \<Rightarrow> Inl OutsideModel)
      else if key = ''_field_changed'' then
        (case value of
           PList vs \<Rightarrow>
             (case str_items vs of
                None \<Rightarrow> Inl OutsideModel
              | Some ss \<Rightarrow> Inr (m\<lparr>field_changed := ss\<rparr>))
         | _ \<Rightarrow> Inl OutsideModel)
      else if instance_slot key then Inr (m\<lparr>attrs := (attrs m)(key \<mapsto> value)\<rparr>)
      else Inl OutsideModel)"

text \<open>
  The property \<^verbatim>\<open>_id\<close>: getter and setter, and \<^verbatim>\<open>_set_key\<close>. The getter calls
  \<^verbatim>\<open>get_value\<close> with one argument, so the three flags take their default
  \<^verbatim>\<open>False\<close>. \<^verbatim>\<open>p[0]\<close> raises \<^verbatim>\<open>IndexError\<close> on the empty string.

  The setter's \<^verbatim>\<open>setattr(self, id, doc_id)\<close> is \<^verbatim>\<open>__setattr__\<close> again: the tracking
  step and then \<^verbatim>\<open>object.__setattr__\<close> on the id attribute's name. Were that name
  \<^verbatim>\<open>_id\<close> itself, the setter would call itself without end.
\<close>

definition id_getter :: "model \<Rightarrow> error + pyval" where
  "id_getter m =
     (case id_field (meta m) of
        None \<Rightarrow> Inr PNone
      | Some (id_name, field) \<Rightarrow> get_value field (getattr m id_name) False False False)"

definition set_key :: "model \<Rightarrow> pyval \<Rightarrow> error + model" where
  "set_key m doc_id =
     (case py_join ''/'' [PStr (parent m), PStr (collection_name m), doc_id] of
        Inl e \<Rightarrow> Inl e
      | Inr p \<Rightarrow>
          (case p of
             [] \<Rightarrow> Inl IndexError
           | c # cs \<Rightarrow>
               Inr ((track m ''_key'')\<lparr>key_attr := Some (if c = CHR ''/'' then cs else p)\<rparr>)))"

definition id_setter :: "model \<Rightarrow> pyval \<Rightarrow> error + model" where
  "id_setter m doc_id =
     (let id_name = (case id_field (meta m) of None \<Rightarrow> ''id'' | Some (n, _) \<Rightarrow> n)
      in if id_name = ''_id'' then Inl RecursionError
         else
           (case store_attr (track m id_name) id_name doc_id of
              Inl e \<Rightarrow> Inl e
            | Inr m' \<Rightarrow> if truthy doc_id then set_key m' doc_id else Inr m'))"

definition set_orig_attr :: "model \<Rightarrow> string \<Rightarrow> pyval \<Rightarrow> error + model" where
  "set_orig_attr m key value =
     (if key = ''_id'' then id_setter m value else store_attr m key value)"

definition setattr :: "model \<Rightarrow> string \<Rightarrow> pyval \<Rightarrow> error + model" where
  "setattr m key value = set_orig_attr (track m key) key value"

text \<open>
  The property \<^verbatim>\<open>key\<close>. Only a \<^verbatim>\<open>TypeError\<close> raised inside the \<^verbatim>\<open>try\<close>
  (by the id getter or by \<^verbatim>\<open>join\<close>) leads to the placeholder.
\<close>

definition key :: "model \<Rightarrow> error + string" where
  "key m =
     (if (case key_attr m of None \<Rightarrow> False | Some k \<Rightarrow> k \<noteq> [])
      then Inr (the (key_attr m))
      else
        (case
           (case
              (case id_getter m of
                 Inl e \<Rightarrow> Inl e
               | Inr i \<Rightarrow> py_join ''/'' [PStr (parent m), PStr (collection_name m), i])
            of
              Inl e \<Rightarrow>
                (if e = TypeError
                 then py_join ''/''
                        [PStr (parent m), PStr (collection_name m), PStr ''@temp_doc_id'']
                 else Inl e)
            | Inr k \<Rightarrow> Inr k)
         of
           Inl e \<Rightarrow> Inl e
         | Inr k \<Rightarrow>
             (case k of
                [] \<Rightarrow> Inl IndexError
              | c # cs \<Rightarrow> Inr (if c = CHR ''/'' then cs else k))))"

text \<open>
  \<^verbatim>\<open>to_db_dict\<close>: the loop over \<^verbatim>\<open>self._meta.field_list.values()\<close> with its
  accumulator \<^verbatim>\<open>result\<close>. The wrapped error is raised with the instance, the path
  \<^verbatim>\<open>(field.name,)\<close> and the error caught; the value here keeps the path and the
  cause.
\<close>

fun to_db_dict_loop ::
  "model \<Rightarrow> bool \<Rightarrow> bool \<Rightarrow> bool \<Rightarrow> field list \<Rightarrow> pydict \<Rightarrow> error + pydict" where
  "to_db_dict_loop m ignore_required ignore_default changed_only [] result = Inr result"
| "to_db_dict_loop m ignore_required ignore_default changed_only (field # rest) result =
     (if changed_only \<and> name field \<notin> set (field_changed m)
      then to_db_dict_loop m ignore_required ignore_default changed_only rest result
      else
        (case get_value field (getattr m (name field))
                ignore_required ignore_default changed_only of
           Inl error \<Rightarrow> Inl (ModelSerializingWrappedError [name field] error)
         | Inr value \<Rightarrow>
             (if value \<noteq> PNone \<or> \<not> ignore_none_field (meta m)
              then to_db_dict_loop m ignore_required ignore_default changed_only rest
                     (dict_set (db_column_name field) value result)
              else to_db_dict_loop m ignore_required ignore_default changed_only rest
                     result)))"

definition to_db_dict :: "model \<Rightarrow> bool \<Rightarrow> bool \<Rightarrow> bool \<Rightarrow> error + pydict" where
  "to_db_dict m ignore_required ignore_default changed_only =
     to_db_dict_loop m ignore_required ignore_default changed_only
       (map snd (field_list (meta m))) []"

definition to_dict :: "model \<Rightarrow> error + pydict" where
  "to_dict m =
     (case to_db_dict m False False False of
        Inl e \<Rightarrow> Inl e
      | Inr model_dict \<Rightarrow>
          (let id_name = (case id_field (meta m) of None \<Rightarrow> ''id'' | Some (n, _) \<Rightarrow> n)
           in case key m of
                Inl e \<Rightarrow> Inl e
              | Inr k \<Rightarrow>
                  Inr (dict_set ''key'' (PStr k)
                        (dict_set id_name (get_id (PStr k)) model_dict))))"

text \<open>\<^verbatim>\<open>populate_from_doc_dict\<close>: the loop over \<^verbatim>\<open>doc_dict.items()\<close>.\<close>

fun populate_from_doc_dict :: "model \<Rightarrow> pydict \<Rightarrow> error + model" where
  "populate_from_doc_dict m [] = Inr m"
| "populate_from_doc_dict m ((k, v) # doc_dict) =
     (case get_field_by_column_name (meta m) k of
        Inl e \<Rightarrow> Inl e
      | Inr None \<Rightarrow> populate_from_doc_dict m doc_dict
      | Inr (Some field) \<Rightarrow>
          (case field_value field v (instance_attrs.truncate m) of
             Inl e \<Rightarrow> Inl e
           | Inr val \<Rightarrow>
               (case set_orig_attr m (name field) val of
                  Inl e \<Rightarrow> Inl e
                | Inr m' \<Rightarrow> populate_from_doc_dict m' doc_dict)))"

text \<open>\<^verbatim>\<open>_get_fields\<close>: the loop over the registry with its accumulator.\<close>

fun get_fields_loop :: "model \<Rightarrow> bool \<Rightarrow> field list \<Rightarrow> pydict \<Rightarrow> pydict" where
  "get_fields_loop m changed_only [] acc = acc"
| "get_fields_loop m changed_only (f # fs) acc =
     (let v = getattr m (name f)
      in if \<not> changed_only \<or> name f \<in> set (field_changed m)
            \<or> (kind f = MapField \<and> v \<noteq> PNone)
         then get_fields_loop m changed_only fs (dict_set (name f) v acc)
         else get_fields_loop m changed_only fs acc)"

definition get_fields :: "model \<Rightarrow> bool \<Rightarrow> pydict" where
  "get_fields m changed_only = get_fields_loop m changed_only (map snd (field_list (meta m))) []"





section \<open>Example models\<close>

text \<open>
  Concrete descriptors, registries and instances, used to evaluate the definitions.
  \<open>plain_field\<close> stores a value as it is; \<open>required_field\<close> refuses null unless
  told to ignore that.
\<close>

definition plain_field :: "string \<Rightarrow> field_kind \<Rightarrow> field" where
  "plain_field n k =
     \<lparr>name = n, db_column_name = n, kind = k,
      get_value = (\<lambda>v ignore_required ignore_default changed_only. Inr v),
      field_value = (\<lambda>v owner. Inr v)\<rparr>"

definition required_field :: "string \<Rightarrow> field" where
  "required_field n =
     \<lparr>name = n, db_column_name = n, kind = OtherField,
      get_value = (\<lambda>v ignore_required ignore_default changed_only.
         if v = PNone \<and> \<not> ignore_required then Inl (ExternalError ''required'') else Inr v),
      field_value = (\<lambda>v owner. Inr v)\<rparr>"

text \<open>
  Modelled from the spec: the registry's \<^verbatim>\<open>get_field_by_column_name\<close> is not among
  the sources; the specification describes it as the lookup ``field by storage column
  name -> descriptor | null''. The example registries use the first registered field
  with that storage column.
\<close>

definition lookup_column :: "(string \<times> field) list \<Rightarrow> string \<Rightarrow> error + field option" where
  "lookup_column fl k = Inr (find (\<lambda>f. db_column_name f = k) (map snd fl))"

definition make_meta ::
  "(string \<times> field) list \<Rightarrow> (string \<times> field) option \<Rightarrow> bool \<Rightarrow> meta" where
  "make_meta fl idf ign =
     \<lparr>field_list = fl, id_field = idf, abstract = False, ignore_none_field = ign,
      get_field_by_column_name = lookup_column fl\<rparr>"

text \<open>
  The state \<^verbatim>\<open>__init__\<close> leaves for a model without nested-model fields that is
  constructed with at most the keyword \<^verbatim>\<open>parent\<close>: an empty change log and the
  class defaults.
\<close>

definition new_instance :: "meta \<Rightarrow> string \<Rightarrow> string \<Rightarrow> model" where
  "new_instance mt p c =
     \<lparr>attrs = Map.empty, key_attr = None, parent = p, collection_name = c,
      field_changed = [], update_doc = None, meta = mt\<rparr>"

text \<open>\<^verbatim>\<open>class User(Model): name = TextField(); age = NumberField()\<close>\<close>

definition user_meta :: meta where
  "user_meta =
     make_meta [(''name'', plain_field ''name'' OtherField),
                (''age'', plain_field ''age'' OtherField)] None False"

text \<open>The same model with a declared id field \<^verbatim>\<open>user_id = IDField()\<close>.\<close>

definition account_meta :: meta where
  "account_meta =
     make_meta [(''name'', plain_field ''name'' OtherField)]
       (Some (''user_id'', plain_field ''user_id'' IDField)) False"


text \<open>
  A model with two required fields, one with a map field that omits null fields
  (\<^verbatim>\<open>ignore_none_field\<close>), and one that declares an ordinary field under the name
  \<^verbatim>\<open>id\<close> and no id field.
\<close>

definition order_meta :: meta where
  "order_meta =
     make_meta [(''title'', plain_field ''title'' OtherField),
                (''qty'', required_field ''qty''),
                (''note'', required_field ''note'')] None False"

definition profile_meta :: meta where
  "profile_meta =
     make_meta [(''nick'', plain_field ''nick'' OtherField),
                (''bio'', plain_field ''bio'' OtherField),
                (''settings'', plain_field ''settings'' MapField)] None True"

definition ticket_meta :: meta where
  "ticket_meta =
     make_meta [(''id'', plain_field ''id'' OtherField),
                (''title'', plain_field ''title'' OtherField)] None False"

text \<open>
  Instances. \<open>user_named n\<close> is a \<^verbatim>\<open>User\<close> after \<^verbatim>\<open>u.name = n\<close>, and
  \<open>user_full n a\<close> after \<^verbatim>\<open>u.age = a\<close> as well; \<open>user_bare_id\<close> has only the
  bare \<^verbatim>\<open>id\<close> assigned. \<open>account_with_id p i\<close> is an account under the parent
  \<open>p\<close> after \<^verbatim>\<open>a.user_id = i\<close> (the id field is no key of the registry, so the
  log stays empty). \<open>order_titled\<close> has its title assigned. \<open>profile\<close> was
  hydrated with a map value for \<^verbatim>\<open>settings\<close> and then had \<^verbatim>\<open>nick\<close> assigned
  \<^verbatim>\<open>None\<close>; \<open>profile_bio\<close> had \<^verbatim>\<open>bio\<close> assigned after that.
\<close>

definition user_named :: "string \<Rightarrow> model" where
  "user_named n =
     (new_instance user_meta [] ''user'')
       \<lparr>attrs := [''name'' \<mapsto> PStr n], field_changed := [''name'']\<rparr>"

definition user_full :: "string \<Rightarrow> int \<Rightarrow> model" where
  "user_full n a =
     (new_instance user_meta [] ''user'')
       \<lparr>attrs := [''name'' \<mapsto> PStr n, ''age'' \<mapsto> PInt a],
        field_changed := [''name'', ''age'']\<rparr>"

definition user_bare_id :: model where
  "user_bare_id = (new_instance user_meta [] ''user'')\<lparr>attrs := [''id'' \<mapsto> PStr ''u1'']\<rparr>"

definition account_with_id :: "string \<Rightarrow> string \<Rightarrow> model" where
  "account_with_id p i =
     (new_instance account_meta p ''user'')\<lparr>attrs := [''user_id'' \<mapsto> PStr i]\<rparr>"

definition order_titled :: model where
  "order_titled =
     (new_instance order_meta [] ''order'')
       \<lparr>attrs := [''title'' \<mapsto> PStr ''tea''], field_changed := [''title'']\<rparr>"

definition profile :: model where
  "profile =
     (new_instance profile_meta [] ''profile'')
       \<lparr>attrs := [''settings'' \<mapsto> PDict [(''theme'', PStr ''dark'')], ''nick'' \<mapsto> PNone],
        field_changed := [''nick'']\<rparr>"

definition profile_bio :: model where
  "profile_bio =
     profile\<lparr>attrs := (attrs profile)(''bio'' \<mapsto> PStr ''hi''),
             field_changed := field_changed profile @ [''bio'']\<rparr>"

section \<open>Properties of utils.py\<close>

lemma dict_set_fresh: "k \<notin> fst ` set d \<Longrightarrow> dict_set k v d = d @ [(k, v)]"
  by (induction d) auto

lemma dict_set_keys: "fst ` set (dict_set k v d) = insert k (fst ` set d)"
proof (induction d)
  case Nil
  show ?case by simp
next
  case (Cons kv d)
  obtain k' v' where "kv = (k', v')" by (cases kv)
  with Cons show ?case by (cases "k' = k") auto
qed

lemma none_free_items_dict_set:
  "v \<noteq> PNone \<Longrightarrow> none_free v \<Longrightarrow> none_free_items d \<Longrightarrow> none_free_items (dict_set k v d)"
  by (induction d) auto

lemma remove_none_field_scalar:
  "(if is_dict_or_list v then remove_none_field v else v) = remove_none_field v"
  by (cases v) auto

lemma remove_none_field_None: "remove_none_field v = PNone \<longleftrightarrow> v = PNone"
  by (cases v) auto

lemma remove_none_list_map: "remove_none_list vs = map remove_none_field vs"
  by (induction vs) auto

lemma none_free_remove_all:
  "none_free (remove_none_field v)"
  "none_free_list (remove_none_list vs)"
  "none_free_items result \<Longrightarrow> none_free_items (remove_none_items kvs result)"
proof (induction v and vs and kvs result
       rule: remove_none_field_remove_none_list_remove_none_items.induct)
  case (10 k v kvs result)
  show ?case
  proof (cases "v = PNone")
    case True
    with "10.IH"(3) "10.prems" show ?thesis by simp
  next
    case False
    have nf: "none_free (remove_none_field v)"
    proof (cases "is_dict_or_list v")
      case True
      with False "10.IH"(1) show ?thesis by simp
    next
      case False
      then show ?thesis by (cases v) auto
    qed
    have "none_free_items (dict_set k (remove_none_field v) result)"
      using False nf "10.prems"
      by (intro none_free_items_dict_set) (simp_all add: remove_none_field_None)
    with False "10.IH"(2) show ?thesis
      by (simp add: remove_none_field_scalar)
  qed
qed simp_all

lemma remove_none_items_distinct:
  "distinct (map fst kvs) \<Longrightarrow> fst ` set kvs \<inter> fst ` set result = {} \<Longrightarrow>
   remove_none_items kvs result =
     result @ map (\<lambda>(k, v). (k, remove_none_field v)) (filter (\<lambda>(k, v). v \<noteq> PNone) kvs)"
proof (induction kvs arbitrary: result)
  case Nil
  then show ?case by simp
next
  case (Cons kv kvs)
  obtain k v where kv: "kv = (k, v)" by (cases kv)
  show ?case
  proof (cases "v = PNone")
    case True
    with Cons kv show ?thesis by auto
  next
    case False
    from Cons.prems kv have fresh: "k \<notin> fst ` set result" by auto
    let ?r = "result @ [(k, remove_none_field v)]"
    from Cons.prems kv have "fst ` set kvs \<inter> fst ` set ?r = {}"
      by (auto simp: image_Un)
    with Cons.IH [of ?r] Cons.prems
    have "remove_none_items kvs ?r =
            ?r @ map (\<lambda>(k, v). (k, remove_none_field v)) (filter (\<lambda>(k, v). v \<noteq> PNone) kvs)"
      by simp
    with False kv fresh show ?thesis
      by (simp add: remove_none_field_scalar dict_set_fresh)
  qed
qed

text \<open>
  C9. \<^verbatim>\<open>remove_none_field\<close> on the example of the specification gives
  \<^verbatim>\<open>{"a": 1, "c": {"e": 2}}\<close>. In general its result holds no key with a null value
  in any mapping at any depth; a list is cleaned element by element; and a dictionary
  (distinct keys) keeps, in order, exactly its keys with a non-null value, each value
  cleaned recursively, so the non-null structure is preserved.
\<close>

theorem remove_none_field_spec:
  "remove_none_field
     (PDict [(''a'', PInt 1), (''b'', PNone),
             (''c'', PDict [(''d'', PNone), (''e'', PInt 2)])])
     = PDict [(''a'', PInt 1), (''c'', PDict [(''e'', PInt 2)])]
   \<and> none_free (remove_none_field v)
   \<and> remove_none_field (PList vs) = PList (map remove_none_field vs)
   \<and> (distinct (map fst kvs) \<longrightarrow>
        remove_none_field (PDict kvs) =
          PDict (map (\<lambda>(k, v). (k, remove_none_field v))
                     (filter (\<lambda>(k, v). v \<noteq> PNone) kvs)))"
  by (simp add: none_free_remove_all(1) remove_none_list_map remove_none_items_distinct)

theorem remove_none_field_spec_witness:
  "distinct (map fst [(''x'', PNone), (''y'', PList [PDict [(''z'', PNone)], PNone])])
   \<and> remove_none_field (PDict [(''x'', PNone), (''y'', PList [PDict [(''z'', PNone)], PNone])])
       = PDict [(''y'', PList [PDict [], PNone])]"
  using remove_none_field_spec
    [of PNone "[]" "[(''x'', PNone), (''y'', PList [PDict [(''z'', PNone)], PNone])]"]
  by simp

section \<open>The key and the id\<close>

lemma py_join3:
  "py_join ''/'' [PStr a, PStr b, v] =
     (case v of PStr c \<Rightarrow> Inr (a @ ''/'' @ b @ ''/'' @ c) | _ \<Rightarrow> Inl TypeError)"
  by (cases v) (simp_all add: py_join_def)

lemma key_fixed:
  "key_attr m = Some k \<Longrightarrow> k \<noteq> [] \<Longrightarrow> key m = Inr k"
  by (simp add: key_def)

lemma key_unfixed_str:
  assumes "key_attr m = None \<or> key_attr m = Some []" and "id_getter m = Inr (PStr i)"
  shows "key m = Inr (let k = parent m @ ''/'' @ collection_name m @ ''/'' @ i
                      in if hd k = CHR ''/'' then tl k else k)"
proof -
  have "parent m @ ''/'' @ collection_name m @ ''/'' @ i \<noteq> []" by simp
  then obtain c cs where "parent m @ ''/'' @ collection_name m @ ''/'' @ i = c # cs"
    by (cases "parent m @ ''/'' @ collection_name m @ ''/'' @ i") auto
  with assms show ?thesis
    by (auto simp: key_def py_join3 Let_def)
qed

lemma key_unfixed_placeholder:
  assumes "key_attr m = None \<or> key_attr m = Some []"
    and "(\<exists>v. id_getter m = Inr v \<and> \<not> is_str v) \<or> id_getter m = Inl TypeError"
  shows "key m = Inr (let k = parent m @ ''/'' @ collection_name m @ ''/@temp_doc_id''
                      in if hd k = CHR ''/'' then tl k else k)"
proof -
  have "parent m @ ''/'' @ collection_name m @ ''/@temp_doc_id'' \<noteq> []" by simp
  then obtain c cs where k: "parent m @ ''/'' @ collection_name m @ ''/@temp_doc_id'' = c # cs"
    by (cases "parent m @ ''/'' @ collection_name m @ ''/@temp_doc_id''") auto
  from assms(2) show ?thesis
  proof
    assume "\<exists>v. id_getter m = Inr v \<and> \<not> is_str v"
    then obtain v where v: "id_getter m = Inr v" "\<not> is_str v" by blast
    then have "py_join ''/'' [PStr (parent m), PStr (collection_name m), v] = Inl TypeError"
      by (cases v) (simp_all add: py_join3)
    with assms(1) v k show ?thesis
      by (auto simp: key_def py_join3 Let_def)
  next
    assume "id_getter m = Inl TypeError"
    with assms(1) k show ?thesis
      by (auto simp: key_def py_join3 Let_def)
  qed
qed

lemma strip_no_leading_slash:
  assumes "p \<noteq> [] \<longrightarrow> hd p \<noteq> CHR ''/''" and "p = [] \<longrightarrow> c \<noteq> [] \<and> hd c \<noteq> CHR ''/''"
  shows "(let k = p @ ''/'' @ c @ ''/'' @ i in if hd k = CHR ''/'' then tl k else k) \<noteq> []
       \<and> hd (let k = p @ ''/'' @ c @ ''/'' @ i in if hd k = CHR ''/'' then tl k else k) \<noteq> CHR ''/''"
proof (cases p)
  case Nil
  with assms(2) obtain x xs where "c = x # xs" "x \<noteq> CHR ''/''" by (cases c) auto
  with Nil show ?thesis by (simp add: Let_def)
next
  case (Cons x xs)
  with assms(1) show ?thesis by (simp add: Let_def)
qed

text \<open>
  C4 (amended). With no fixed key, the key is the string
  \<^verbatim>\<open>parent/collection_name/id\<close> with one leading separator removed: an empty parent
  is elided, and a parent that does not begin with a separator is kept whole. When the id
  getter yields no string (or raises \<^verbatim>\<open>TypeError\<close>) the placeholder
  \<^verbatim>\<open>@temp_doc_id\<close> stands in for the id. The two examples of the specification
  hold. The result does not start with a separator provided the parent does not start
  with one and, when the parent is empty, the collection name is non-empty and does not
  start with one either.
\<close>

theorem key_computed:
  "key_attr m = None \<or> key_attr m = Some [] \<longrightarrow>
     (id_getter m = Inr (PStr i) \<longrightarrow>
        key m = Inr (let k = parent m @ ''/'' @ collection_name m @ ''/'' @ i
                     in if hd k = CHR ''/'' then tl k else k)
        \<and> (parent m = [] \<longrightarrow> key m = Inr (collection_name m @ ''/'' @ i))
        \<and> (parent m \<noteq> [] \<and> hd (parent m) \<noteq> CHR ''/'' \<longrightarrow>
             key m = Inr (parent m @ ''/'' @ collection_name m @ ''/'' @ i))
        \<and> (parent m = ''org/acme'' \<and> collection_name m = ''user'' \<and> i = ''u1'' \<longrightarrow>
             key m = Inr ''org/acme/user/u1''))
   \<and> ((\<exists>v. id_getter m = Inr v \<and> \<not> is_str v) \<or> id_getter m = Inl TypeError \<longrightarrow>
        key m = Inr (let k = parent m @ ''/'' @ collection_name m @ ''/@temp_doc_id''
                     in if hd k = CHR ''/'' then tl k else k)
        \<and> (parent m = [] \<longrightarrow> key m = Inr (collection_name m @ ''/@temp_doc_id''))
        \<and> (parent m \<noteq> [] \<and> hd (parent m) \<noteq> CHR ''/'' \<longrightarrow>
             key m = Inr (parent m @ ''/'' @ collection_name m @ ''/@temp_doc_id''))
        \<and> (parent m = [] \<and> collection_name m = ''user'' \<longrightarrow>
             key m = Inr ''user/@temp_doc_id''))
   \<and> ((parent m \<noteq> [] \<longrightarrow> hd (parent m) \<noteq> CHR ''/'')
        \<and> (parent m = [] \<longrightarrow> collection_name m \<noteq> [] \<and> hd (collection_name m) \<noteq> CHR ''/'')
        \<and> key m = Inr k \<longrightarrow> k \<noteq> [] \<and> hd k \<noteq> CHR ''/'')"
proof (intro impI conjI)
  assume nk: "key_attr m = None \<or> key_attr m = Some []"
  {
    assume i: "id_getter m = Inr (PStr i)"
    from key_unfixed_str [OF nk i]
    show a: "key m = Inr (let k = parent m @ ''/'' @ collection_name m @ ''/'' @ i
                     in if hd k = CHR ''/'' then tl k else k)" .
    { assume "parent m = []" with a show "key m = Inr (collection_name m @ ''/'' @ i)"
        by (simp add: Let_def) }
    { assume "parent m \<noteq> [] \<and> hd (parent m) \<noteq> CHR ''/''"
      with a show "key m = Inr (parent m @ ''/'' @ collection_name m @ ''/'' @ i)"
        by (cases "parent m") (simp_all add: Let_def) }
    { assume "parent m = ''org/acme'' \<and> collection_name m = ''user'' \<and> i = ''u1''"
      with a show "key m = Inr ''org/acme/user/u1''" by (simp add: Let_def) }
  }
  {
    assume u: "(\<exists>v. id_getter m = Inr v \<and> \<not> is_str v) \<or> id_getter m = Inl TypeError"
    from key_unfixed_placeholder [OF nk u]
    show a: "key m = Inr (let k = parent m @ ''/'' @ collection_name m @ ''/@temp_doc_id''
                     in if hd k = CHR ''/'' then tl k else k)" .
    { assume "parent m = []" with a show "key m = Inr (collection_name m @ ''/@temp_doc_id'')"
        by (simp add: Let_def) }
    { assume "parent m \<noteq> [] \<and> hd (parent m) \<noteq> CHR ''/''"
      with a show "key m = Inr (parent m @ ''/'' @ collection_name m @ ''/@temp_doc_id'')"
        by (cases "parent m") (simp_all add: Let_def) }
    { assume "parent m = [] \<and> collection_name m = ''user''"
      with a show "key m = Inr ''user/@temp_doc_id''" by (simp add: Let_def) }
  }
  {
    assume wf: "(parent m \<noteq> [] \<longrightarrow> hd (parent m) \<noteq> CHR ''/'')
        \<and> (parent m = [] \<longrightarrow> collection_name m \<noteq> [] \<and> hd (collection_name m) \<noteq> CHR ''/'')
        \<and> key m = Inr k"
    have "\<exists>x. key m = Inr (let k = parent m @ ''/'' @ collection_name m @ ''/'' @ x
                     in if hd k = CHR ''/'' then tl k else k)"
    proof (cases "id_getter m")
      case (Inl e)
      with wf nk have "e = TypeError"
        by (auto simp: key_def split: if_splits)
      with Inl key_unfixed_placeholder [OF nk] show ?thesis by auto
    next
      case (Inr v)
      show ?thesis
      proof (cases v)
        case (PStr s)
        with Inr key_unfixed_str [OF nk] show ?thesis by blast
      qed (use Inr key_unfixed_placeholder [OF nk] in auto)
    qed
    then obtain x where "key m = Inr (let k = parent m @ ''/'' @ collection_name m @ ''/'' @ x
                     in if hd k = CHR ''/'' then tl k else k)" ..
    with wf strip_no_leading_slash [of "parent m" "collection_name m" x]
    show "k \<noteq> []" and "hd k \<noteq> CHR ''/''" by auto
  }
qed

theorem key_computed_witness:
  "key (new_instance user_meta [] ''user'') = Inr ''user/@temp_doc_id''
   \<and> hd ''user/@temp_doc_id'' \<noteq> CHR ''/''
   \<and> key (account_with_id ''org/acme'' ''u1'') = Inr ''org/acme/user/u1''"
  using key_computed [of "new_instance user_meta [] ''user''" "[]" "''user/@temp_doc_id''"]
    key_computed [of "account_with_id ''org/acme'' ''u1''" "''u1''" "''org/acme/user/u1''"]
  by (simp add: new_instance_def user_meta_def account_meta_def account_with_id_def
      make_meta_def id_getter_def getattr_def plain_field_def)

text \<open>
  C4 as stated fails: a parent that is itself a separator leaves a key that starts with
  one, since only one leading separator is removed.
\<close>

theorem key_leading_separator_counterexample:
  "key_attr (new_instance user_meta ''/'' ''user'') = None
   \<and> key (new_instance user_meta ''/'' ''user'') = Inr ''/user/@temp_doc_id''
   \<and> hd ''/user/@temp_doc_id'' = CHR ''/''"
  by (simp add: key_def new_instance_def user_meta_def make_meta_def id_getter_def py_join_def)

section \<open>Strings, dictionaries and attribute access\<close>

lemma split_on_nonempty: "split_on sep xs \<noteq> []"
  by (induction xs) (auto split: list.splits)

lemma split_on_no_sep: "sep \<notin> set ys \<Longrightarrow> split_on sep ys = [ys]"
  by (induction ys) auto

lemma split_on_append: "split_on sep (xs @ sep # ys) = split_on sep xs @ split_on sep ys"
proof (induction xs)
  case Nil
  show ?case by simp
next
  case (Cons c xs)
  obtain w ws where "split_on sep xs = w # ws"
    using split_on_nonempty [of sep xs] by (cases "split_on sep xs") auto
  with Cons show ?case by simp
qed

lemma last_split_on:
  "sep \<notin> set ys \<Longrightarrow> last (split_on sep (xs @ sep # ys)) = ys"
  by (simp add: split_on_append split_on_no_sep)

lemma str_contains_prefix: "str_contains p (p @ post)"
proof (cases "p @ post")
  case Nil
  then show ?thesis by simp
next
  case (Cons a list)
  have "take (length p) (p @ post) = p" by simp
  with Cons show ?thesis by simp
qed

lemma str_contains_append: "str_contains p (pre @ p @ post)"
  by (induction pre) (simp_all add: str_contains_prefix)

lemma strip_shape:
  "\<exists>pre. (let k = p @ ''/'' @ c @ ''/'' @ i in if hd k = CHR ''/'' then tl k else k)
           = pre @ ''/'' @ i"
proof (cases p)
  case Nil
  then show ?thesis by (simp add: Let_def)
next
  case (Cons x xs)
  show ?thesis
  proof (cases "x = CHR ''/''")
    case True
    with Cons have "(let k = p @ ''/'' @ c @ ''/'' @ i in if hd k = CHR ''/'' then tl k else k)
           = (xs @ ''/'' @ c) @ ''/'' @ i" by (simp add: Let_def)
    then show ?thesis by blast
  next
    case False
    with Cons have "(let k = p @ ''/'' @ c @ ''/'' @ i in if hd k = CHR ''/'' then tl k else k)
           = (p @ ''/'' @ c) @ ''/'' @ i" by (simp add: Let_def)
    then show ?thesis by blast
  qed
qed

lemma map_of_dict_set: "map_of (dict_set k v d) k' = (if k' = k then Some v else map_of d k')"
  by (induction d) auto

lemma track_simps:
  "meta (track m k) = meta m"
  "key_attr (track m k) = key_attr m"
  "parent (track m k) = parent m"
  "collection_name (track m k) = collection_name m"
  "update_doc (track m k) = update_doc m"
  "attrs (track m k) = attrs m"
  by (simp_all add: track_def)

lemma track_log:
  "field_changed (track m k) =
     (if k \<in> fst ` set (field_list (meta m)) then field_changed m @ [k] else field_changed m)"
  by (simp add: track_def)

lemma getattr_track: "n \<noteq> ''_field_changed'' \<Longrightarrow> getattr (track m k) n = getattr m n"
  by (simp add: track_def getattr_def)

lemma str_items_map: "str_items vs = Some ss \<Longrightarrow> map PStr ss = vs"
proof (induction vs arbitrary: ss)
  case Nil
  then show ?case by simp
next
  case (Cons v vs)
  then show ?case by (cases v) (auto split: option.splits)
qed

lemma str_items_PStr: "str_items (map PStr ss) = Some ss"
  by (induction ss) auto

lemma instance_slot_names:
  "instance_slot k \<Longrightarrow>
     k \<noteq> ''key'' \<and> k \<noteq> ''_id'' \<and> k \<noteq> ''parent'' \<and> k \<noteq> ''collection_name''
     \<and> k \<noteq> ''_key'' \<and> k \<noteq> ''_update_doc'' \<and> k \<noteq> ''_field_changed''"
  by (auto simp: instance_slot_def data_attribute_def typed_attributes_def class_members_def)

lemma data_attribute_names: "data_attribute k \<Longrightarrow> k \<noteq> ''key'' \<and> k \<noteq> ''_id''"
  by (auto simp: data_attribute_def class_members_def)

lemma store_attr_slot:
  "instance_slot k \<Longrightarrow> store_attr m k v = Inr (m\<lparr>attrs := (attrs m)(k \<mapsto> v)\<rparr>)"
  using instance_slot_names [of k] by (simp add: store_attr_def)

lemma getattr_updates:
  "getattr (m\<lparr>parent := s\<rparr>) n = (if n = ''parent'' then PStr s else getattr m n)"
  "getattr (m\<lparr>collection_name := s\<rparr>) n =
     (if n = ''collection_name'' then PStr s else getattr m n)"
  "getattr (m\<lparr>key_attr := ko\<rparr>) n =
     (if n = ''_key'' then (case ko of None \<Rightarrow> PNone | Some k \<Rightarrow> PStr k) else getattr m n)"
  "getattr (m\<lparr>update_doc := ko\<rparr>) n =
     (if n = ''_update_doc'' then (case ko of None \<Rightarrow> PNone | Some k \<Rightarrow> PStr k)
      else getattr m n)"
  "getattr (m\<lparr>field_changed := xs\<rparr>) n =
     (if n = ''_field_changed'' then PList (map PStr xs) else getattr m n)"
  by (simp_all add: getattr_def)

lemma getattr_attrs_update:
  "instance_slot k \<Longrightarrow>
   getattr (m\<lparr>attrs := (attrs m)(k \<mapsto> v)\<rparr>) n = (if n = k then v else getattr m n)"
  using instance_slot_names [of k] by (simp add: getattr_def)

lemma store_attr_cases:
  assumes "store_attr m k v = Inr m'"
  obtains s where "k = ''parent''" "v = PStr s" "m' = m\<lparr>parent := s\<rparr>"
  | s where "k = ''collection_name''" "v = PStr s" "m' = m\<lparr>collection_name := s\<rparr>"
  | ko where "k = ''_key''" "v = (case ko of None \<Rightarrow> PNone | Some s \<Rightarrow> PStr s)"
      "m' = m\<lparr>key_attr := ko\<rparr>"
  | ko where "k = ''_update_doc''" "v = (case ko of None \<Rightarrow> PNone | Some s \<Rightarrow> PStr s)"
      "m' = m\<lparr>update_doc := ko\<rparr>"
  | ss where "k = ''_field_changed''" "v = PList (map PStr ss)" "m' = m\<lparr>field_changed := ss\<rparr>"
  | "instance_slot k" "m' = m\<lparr>attrs := (attrs m)(k \<mapsto> v)\<rparr>"
proof -
  have nk: "k \<noteq> ''key''" using assms by (auto simp: store_attr_def)
  show thesis
  proof (cases "k = ''parent''")
    case True
    with assms obtain s where "v = PStr s" "m' = m\<lparr>parent := s\<rparr>"
      by (cases v) (simp_all add: store_attr_def)
    with True that(1) show thesis by blast
  next
    case np: False
    show thesis
    proof (cases "k = ''collection_name''")
      case True
      with assms obtain s where "v = PStr s" "m' = m\<lparr>collection_name := s\<rparr>"
        by (cases v) (simp_all add: store_attr_def)
      with True that(2) show thesis by blast
    next
      case nc: False
      show thesis
      proof (cases "k = ''_key''")
        case True
        with assms have "\<exists>ko. v = (case ko of None \<Rightarrow> PNone | Some s \<Rightarrow> PStr s)
                          \<and> m' = m\<lparr>key_attr := ko\<rparr>"
        proof (cases v)
          case PNone
          with True assms have "v = (case None of None \<Rightarrow> PNone | Some s \<Rightarrow> PStr s)
                          \<and> m' = m\<lparr>key_attr := None\<rparr>" by (simp add: store_attr_def)
          then show ?thesis by blast
        next
          case (PStr s)
          with True assms have "v = (case Some s of None \<Rightarrow> PNone | Some s \<Rightarrow> PStr s)
                          \<and> m' = m\<lparr>key_attr := Some s\<rparr>" by (simp add: store_attr_def)
          then show ?thesis by blast
        qed (simp_all add: store_attr_def)
        with True that(3) show thesis by blast
      next
        case nkey: False
        show thesis
        proof (cases "k = ''_update_doc''")
          case True
          with assms have "\<exists>ko. v = (case ko of None \<Rightarrow> PNone | Some s \<Rightarrow> PStr s)
                          \<and> m' = m\<lparr>update_doc := ko\<rparr>"
          proof (cases v)
            case PNone
            with True assms have "v = (case None of None \<Rightarrow> PNone | Some s \<Rightarrow> PStr s)
                          \<and> m' = m\<lparr>update_doc := None\<rparr>" by (simp add: store_attr_def)
            then show ?thesis by blast
          next
            case (PStr s)
            with True assms have "v = (case Some s of None \<Rightarrow> PNone | Some s \<Rightarrow> PStr s)
                          \<and> m' = m\<lparr>update_doc := Some s\<rparr>" by (simp add: store_attr_def)
            then show ?thesis by blast
          qed (simp_all add: store_attr_def)
          with True that(4) show thesis by blast
        next
          case nu: False
          show thesis
          proof (cases "k = ''_field_changed''")
            case True
            with assms obtain vs ss where "v = PList vs" "str_items vs = Some ss"
              "m' = m\<lparr>field_changed := ss\<rparr>"
              by (cases v) (auto simp: store_attr_def split: option.splits)
            with True that(5) [of ss] show thesis by (simp add: str_items_map)
          next
            case False
            with assms nk np nc nkey nu
            have "instance_slot k \<and> m' = m\<lparr>attrs := (attrs m)(k \<mapsto> v)\<rparr>"
              by (simp add: store_attr_def split: if_splits)
            with that(6) show thesis by blast
          qed
        qed
      qed
    qed
  qed
qed

lemma store_attr_getattr:
  "store_attr m k v = Inr m' \<Longrightarrow> getattr m' n = (if n = k then v else getattr m n)"
  by (erule store_attr_cases) (simp_all add: getattr_updates getattr_attrs_update)

lemma store_attr_typed:
  "store_attr m ''parent'' (PStr s) = Inr (m\<lparr>parent := s\<rparr>)"
  "store_attr m ''collection_name'' (PStr s) = Inr (m\<lparr>collection_name := s\<rparr>)"
  "store_attr m ''_key'' PNone = Inr (m\<lparr>key_attr := None\<rparr>)"
  "store_attr m ''_key'' (PStr s) = Inr (m\<lparr>key_attr := Some s\<rparr>)"
  "store_attr m ''_update_doc'' PNone = Inr (m\<lparr>update_doc := None\<rparr>)"
  "store_attr m ''_update_doc'' (PStr s) = Inr (m\<lparr>update_doc := Some s\<rparr>)"
  "store_attr m ''_field_changed'' (PList (map PStr ss)) = Inr (m\<lparr>field_changed := ss\<rparr>)"
  "store_attr m ''key'' v = Inl AttributeError"
  by (simp_all add: store_attr_def str_items_PStr)

lemma getattr_typed:
  "getattr m ''parent'' = PStr (parent m)"
  "getattr m ''collection_name'' = PStr (collection_name m)"
  "getattr m ''_key'' = (case key_attr m of None \<Rightarrow> PNone | Some k \<Rightarrow> PStr k)"
  "getattr m ''_update_doc'' = (case update_doc m of None \<Rightarrow> PNone | Some k \<Rightarrow> PStr k)"
  "getattr m ''_field_changed'' = PList (map PStr (field_changed m))"
  by (simp_all add: getattr_def)

lemma store_attr_write_back:
  assumes "data_attribute k"
  shows "\<exists>m'. store_attr m k (getattr m0 k) = Inr m'"
proof (cases "k \<in> set typed_attributes")
  case True
  then have "k = ''parent'' \<or> k = ''collection_name'' \<or> k = ''_key''
    \<or> k = ''_update_doc'' \<or> k = ''_field_changed''"
    by (simp add: typed_attributes_def)
  then show ?thesis
  proof (elim disjE)
    assume "k = ''parent''"
    then show ?thesis by (simp only: store_attr_typed getattr_typed) blast
  next
    assume "k = ''collection_name''"
    then show ?thesis by (simp only: store_attr_typed getattr_typed) blast
  next
    assume k: "k = ''_key''"
    show ?thesis
    proof (cases "key_attr m0")
      case None
      with k show ?thesis by (simp add: store_attr_typed getattr_typed)
    next
      case (Some a)
      with k show ?thesis by (simp add: store_attr_typed getattr_typed)
    qed
  next
    assume k: "k = ''_update_doc''"
    show ?thesis
    proof (cases "update_doc m0")
      case None
      with k show ?thesis by (simp add: store_attr_typed getattr_typed)
    next
      case (Some a)
      with k show ?thesis by (simp add: store_attr_typed getattr_typed)
    qed
  next
    assume "k = ''_field_changed''"
    then show ?thesis by (simp only: store_attr_typed getattr_typed) blast
  qed
next
  case False
  with assms have "instance_slot k" by (simp add: instance_slot_def)
  then show ?thesis by (simp add: store_attr_slot)
qed

lemma store_attr_meta: "store_attr m k v = Inr m' \<Longrightarrow> meta m' = meta m"
  by (erule store_attr_cases) simp_all

lemma store_attr_log:
  "store_attr m k v = Inr m' \<Longrightarrow> k \<noteq> ''_field_changed'' \<Longrightarrow>
   field_changed m' = field_changed m"
  by (erule store_attr_cases) simp_all

lemma store_attr_log_replaced:
  "store_attr m ''_field_changed'' v = Inr m' \<Longrightarrow> v = PList (map PStr (field_changed m'))"
  by (erule store_attr_cases) (simp_all add: instance_slot_def typed_attributes_def)

lemma set_orig_attr_store: "k \<noteq> ''_id'' \<Longrightarrow> set_orig_attr m k v = store_attr m k v"
  by (simp add: set_orig_attr_def)

lemma setattr_store: "k \<noteq> ''_id'' \<Longrightarrow> setattr m k v = store_attr (track m k) k v"
  by (simp add: setattr_def set_orig_attr_def)

lemma set_key_str:
  "set_key m (PStr s) =
     Inr ((track m ''_key'')\<lparr>key_attr :=
            Some (let p = parent m @ ''/'' @ collection_name m @ ''/'' @ s
                  in if hd p = CHR ''/'' then tl p else p)\<rparr>)"
proof -
  have "parent m @ ''/'' @ collection_name m @ ''/'' @ s \<noteq> []" by simp
  then obtain c cs where "parent m @ ''/'' @ collection_name m @ ''/'' @ s = c # cs"
    by (cases "parent m @ ''/'' @ collection_name m @ ''/'' @ s") auto
  then show ?thesis by (simp add: set_key_def py_join3 Let_def)
qed

lemma strip_nonempty:
  "s \<noteq> [] \<Longrightarrow> (let p = a @ ''/'' @ b @ ''/'' @ s in if hd p = CHR ''/'' then tl p else p) \<noteq> []"
  by (cases a) (simp_all add: Let_def)

text \<open>
  The assignments that \<^verbatim>\<open>update\<close> and \<^verbatim>\<open>_set_key\<close> make to
  \<^verbatim>\<open>parent\<close>, \<^verbatim>\<open>_update_doc\<close> and \<^verbatim>\<open>_key\<close> are written
  there as the tracking step followed by the component's update: that is what
  \<open>setattr\<close> does with a string.
\<close>

lemma setattr_typed:
  "setattr m ''parent'' (PStr s) = Inr ((track m ''parent'')\<lparr>parent := s\<rparr>)"
  "setattr m ''_update_doc'' (PStr s) = Inr ((track m ''_update_doc'')\<lparr>update_doc := Some s\<rparr>)"
  "setattr m ''_key'' (PStr s) = Inr ((track m ''_key'')\<lparr>key_attr := Some s\<rparr>)"
  by (simp_all add: setattr_store store_attr_typed)

section \<open>Change tracking and hydration\<close>

lemma id_setter_slot:
  assumes "instance_slot (case id_field (meta m) of None \<Rightarrow> ''id'' | Some (n, _) \<Rightarrow> n)"
  shows "id_setter m v =
     (let id_name = (case id_field (meta m) of None \<Rightarrow> ''id'' | Some (n, _) \<Rightarrow> n);
          m1 = (track m id_name)\<lparr>attrs := (attrs m)(id_name \<mapsto> v)\<rparr>
      in if truthy v then set_key m1 v else Inr m1)"
  using assms instance_slot_names [OF assms]
  by (simp add: id_setter_def Let_def store_attr_slot track_simps)

lemma set_key_log:
  "set_key m v = Inr m' \<Longrightarrow> field_changed m' = field_changed (track m ''_key'')"
  by (auto simp: set_key_def split: sum.splits list.splits)

lemma id_setter_log:
  assumes "instance_slot (case id_field (meta m) of None \<Rightarrow> ''id'' | Some (n, _) \<Rightarrow> n)"
    and "id_setter m v = Inr m'"
  shows "\<exists>ys. field_changed m' =
           field_changed (track m (case id_field (meta m) of None \<Rightarrow> ''id'' | Some (n, _) \<Rightarrow> n))
             @ ys"
proof (cases "truthy v")
  case True
  with assms have "field_changed m' =
      field_changed (track ((track m (case id_field (meta m) of None \<Rightarrow> ''id'' | Some (n, _) \<Rightarrow> n))
         \<lparr>attrs := (attrs m)((case id_field (meta m) of None \<Rightarrow> ''id'' | Some (n, _) \<Rightarrow> n) \<mapsto> v)\<rparr>)
         ''_key'')"
    by (simp add: id_setter_slot Let_def set_key_log)
  then show ?thesis by (simp add: track_def split: if_splits)
next
  case False
  with assms show ?thesis by (auto simp: id_setter_slot Let_def)
qed

text \<open>
  C8 (amended). \<^verbatim>\<open>__setattr__\<close> appends the assigned name to the changed-fields
  log exactly once when the name is a key of the field registry, and appends nothing
  otherwise, whatever the value. For a slot of the instance dictionary the assignment
  succeeds, stores the value, and that is its whole effect on the log; the same holds for
  every successful assignment to a name other than \<^verbatim>\<open>_id\<close> and
  \<^verbatim>\<open>_field_changed\<close>. The names the class handles itself differ: assigning
  \<^verbatim>\<open>key\<close> raises \<^verbatim>\<open>AttributeError\<close>; assigning
  \<^verbatim>\<open>_field_changed\<close> replaces the log by the assigned list; assigning
  \<^verbatim>\<open>_id\<close> runs the id setter, whose own assignment of the id attribute is
  tracked, so that name enters the log when it is a key of the registry.
\<close>

theorem setattr_tracks:
  "(instance_slot k \<longrightarrow>
      (\<exists>m'. setattr m k v = Inr m' \<and> getattr m' k = v
         \<and> (k \<in> fst ` set (field_list (meta m)) \<longrightarrow>
               field_changed m' = field_changed m @ [k])
         \<and> (k \<notin> fst ` set (field_list (meta m)) \<longrightarrow>
               field_changed m' = field_changed m)))
   \<and> (k \<noteq> ''_id'' \<and> k \<noteq> ''_field_changed'' \<and> setattr m k v = Inr m' \<longrightarrow>
         (k \<in> fst ` set (field_list (meta m)) \<longrightarrow>
            field_changed m' = field_changed m @ [k])
         \<and> (k \<notin> fst ` set (field_list (meta m)) \<longrightarrow>
            field_changed m' = field_changed m))
   \<and> setattr m ''key'' v = Inl AttributeError
   \<and> (setattr m ''_field_changed'' v = Inr m' \<longrightarrow>
         v = PList (map PStr (field_changed m')))
   \<and> setattr m ''_id'' v = id_setter (track m ''_id'') v
   \<and> (let id_name = (case id_field (meta m) of None \<Rightarrow> ''id'' | Some (n, _) \<Rightarrow> n)
      in instance_slot id_name \<and> id_name \<in> fst ` set (field_list (meta m))
         \<and> setattr m ''_id'' v = Inr m' \<longrightarrow>
         (\<exists>xs ys. field_changed m' = field_changed m @ xs @ id_name # ys))"
proof (intro conjI impI)
  assume slot: "instance_slot k"
  define m' where "m' = (track m k)\<lparr>attrs := (attrs m)(k \<mapsto> v)\<rparr>"
  from slot instance_slot_names [of k] have "setattr m k v = Inr m'"
    by (simp add: setattr_store store_attr_slot m'_def track_simps)
  moreover from slot have "getattr m' k = v"
    using getattr_attrs_update [of k "track m k" v k] by (simp add: m'_def track_simps)
  moreover have "field_changed m' = field_changed (track m k)" by (simp add: m'_def)
  ultimately show "\<exists>m'. setattr m k v = Inr m' \<and> getattr m' k = v
         \<and> (k \<in> fst ` set (field_list (meta m)) \<longrightarrow>
               field_changed m' = field_changed m @ [k])
         \<and> (k \<notin> fst ` set (field_list (meta m)) \<longrightarrow>
               field_changed m' = field_changed m)"
    by (auto simp: track_log)
next
  assume a: "k \<noteq> ''_id'' \<and> k \<noteq> ''_field_changed'' \<and> setattr m k v = Inr m'"
  then have "store_attr (track m k) k v = Inr m'" by (auto simp: setattr_store)
  with a have log: "field_changed m' = field_changed (track m k)"
    by (auto simp: store_attr_log)
  { assume "k \<in> fst ` set (field_list (meta m))"
    with log show "field_changed m' = field_changed m @ [k]" by (simp add: track_log) }
  { assume "k \<notin> fst ` set (field_list (meta m))"
    with log show "field_changed m' = field_changed m" by (simp add: track_log) }
next
  show "setattr m ''key'' v = Inl AttributeError"
    by (simp add: setattr_store store_attr_typed)
next
  assume "setattr m ''_field_changed'' v = Inr m'"
  then have "store_attr (track m ''_field_changed'') ''_field_changed'' v = Inr m'"
    by (simp add: setattr_store)
  then show "v = PList (map PStr (field_changed m'))" by (rule store_attr_log_replaced)
next
  show "setattr m ''_id'' v = id_setter (track m ''_id'') v"
    by (simp add: setattr_def set_orig_attr_def)
next
  show "let id_name = (case id_field (meta m) of None \<Rightarrow> ''id'' | Some (n, _) \<Rightarrow> n)
      in instance_slot id_name \<and> id_name \<in> fst ` set (field_list (meta m))
         \<and> setattr m ''_id'' v = Inr m' \<longrightarrow>
         (\<exists>xs ys. field_changed m' = field_changed m @ xs @ id_name # ys)"
  proof (unfold Let_def, intro impI)
    let ?n = "case id_field (meta m) of None \<Rightarrow> ''id'' | Some (n, _) \<Rightarrow> n"
    assume a: "instance_slot ?n \<and> ?n \<in> fst ` set (field_list (meta m))
         \<and> setattr m ''_id'' v = Inr m'"
    then have s: "id_setter (track m ''_id'') v = Inr m'"
      by (simp add: setattr_def set_orig_attr_def)
    have slot: "instance_slot (case id_field (meta (track m ''_id'')) of
                   None \<Rightarrow> ''id'' | Some (n, _) \<Rightarrow> n)"
      using a by (simp add: track_simps)
    from id_setter_log [OF slot s] obtain ys where
      "field_changed m' = field_changed (track (track m ''_id'') ?n) @ ys"
      by (auto simp: track_simps)
    moreover from a have "field_changed (track (track m ''_id'') ?n)
        = field_changed (track m ''_id'') @ [?n]"
      by (simp add: track_log track_simps)
    moreover obtain xs where "field_changed (track m ''_id'') = field_changed m @ xs"
      by (cases "''_id'' \<in> fst ` set (field_list (meta m))") (simp_all add: track_log)
    ultimately have "field_changed m' = field_changed m @ xs @ ?n # ys" by simp
    then show "\<exists>xs ys. field_changed m' = field_changed m @ xs @ ?n # ys"
      by blast
  qed
qed

theorem setattr_tracks_witness:
  "setattr (new_instance user_meta [] ''user'') ''name'' (PStr ''Azeem'')
     = Inr (user_named ''Azeem'')
   \<and> map_sum (\<lambda>e. e) field_changed (setattr (user_named ''Azeem'') ''name'' PNone)
       = Inr [''name'', ''name'']
   \<and> map_sum (\<lambda>e. e) field_changed (setattr (user_named ''Azeem'') ''nickname'' (PInt 1))
       = Inr [''name'']
   \<and> map_sum (\<lambda>e. e) field_changed (setattr (user_named ''Azeem'') ''parent'' (PStr ''org/acme''))
       = Inr [''name'']
   \<and> map_sum (\<lambda>e. e) field_changed
         (setattr (user_named ''Azeem'') ''_field_changed'' (PList [PStr ''age'']))
       = Inr [''age'']
   \<and> map_sum (\<lambda>e. e) field_changed
         (setattr (new_instance ticket_meta [] ''ticket'') ''_id'' (PStr ''t1''))
       = Inr [''id'']"
  using setattr_tracks [of "''name''" "new_instance user_meta [] ''user''" "PStr ''Azeem''"
                           "user_named ''Azeem''"]
    setattr_tracks [of "''name''" "user_named ''Azeem''" PNone
       "(user_named ''Azeem'')\<lparr>attrs := [''name'' \<mapsto> PNone],
                              field_changed := [''name'', ''name'']\<rparr>"]
    setattr_tracks [of "''nickname''" "user_named ''Azeem''" "PInt 1" "user_named ''Azeem''"]
    setattr_tracks [of "''parent''" "user_named ''Azeem''" "PStr ''org/acme''"
       "(user_named ''Azeem'')\<lparr>parent := ''org/acme''\<rparr>"]
  by (simp add: setattr_def set_orig_attr_def store_attr_def id_setter_def set_key_def
      py_join_def track_def instance_slot_def data_attribute_def class_members_def
      typed_attributes_def user_named_def new_instance_def user_meta_def ticket_meta_def
      make_meta_def Let_def)

text \<open>
  C8 as stated fails: neither \<^verbatim>\<open>_field_changed\<close> nor \<^verbatim>\<open>_id\<close> is a
  declared field, yet assigning a list to the first leaves the log with an entry it did
  not have, and assigning the second, on a model that declares a field named
  \<^verbatim>\<open>id\<close>, appends \<^verbatim>\<open>id\<close>.
\<close>

theorem private_assignment_counterexample:
  "''_field_changed'' \<notin> fst ` set (field_list (meta (user_named ''Azeem'')))
   \<and> field_changed (user_named ''Azeem'') = [''name'']
   \<and> map_sum (\<lambda>e. e) field_changed
         (setattr (user_named ''Azeem'') ''_field_changed'' (PList [PStr ''name'', PStr ''age'']))
       = Inr [''name'', ''age'']
   \<and> ''_id'' \<notin> fst ` set (field_list (meta (new_instance ticket_meta [] ''ticket'')))
   \<and> field_changed (new_instance ticket_meta [] ''ticket'') = []
   \<and> map_sum (\<lambda>e. e) field_changed
         (setattr (new_instance ticket_meta [] ''ticket'') ''_id'' (PStr ''t1''))
       = Inr [''id'']"
  by (simp add: setattr_def set_orig_attr_def store_attr_def id_setter_def set_key_def
      py_join_def track_def instance_slot_def data_attribute_def class_members_def
      typed_attributes_def user_named_def new_instance_def user_meta_def ticket_meta_def
      make_meta_def Let_def)

lemma set_orig_attr_keeps:
  "set_orig_attr m k v = Inr m' \<Longrightarrow> k \<noteq> ''_id'' \<Longrightarrow> k \<noteq> ''_field_changed'' \<Longrightarrow>
   field_changed m' = field_changed m \<and> meta m' = meta m"
  by (simp add: set_orig_attr_store store_attr_log store_attr_meta)

lemma populate_keeps:
  "populate_from_doc_dict m d = Inr m' \<Longrightarrow>
   (\<forall>(k, v) \<in> set d. \<forall>f. get_field_by_column_name (meta m) k = Inr (Some f) \<longrightarrow>
        name f \<noteq> ''_field_changed'' \<and> name f \<noteq> ''_id'') \<Longrightarrow>
   field_changed m' = field_changed m \<and> meta m' = meta m"
proof (induction d arbitrary: m)
  case Nil
  then show ?case by simp
next
  case (Cons kv d)
  obtain k v where kv: "kv = (k, v)" by (cases kv)
  show ?case
  proof (cases "get_field_by_column_name (meta m) k")
    case (Inl e)
    with Cons.prems kv show ?thesis by simp
  next
    case (Inr fo)
    show ?thesis
    proof (cases fo)
      case None
      with Inr Cons.prems kv have "populate_from_doc_dict m d = Inr m'" by simp
      with Cons.IH [of m] Cons.prems(2) show ?thesis by simp
    next
      case (Some f)
      with Inr Cons.prems(2) kv
      have nm: "name f \<noteq> ''_id''" "name f \<noteq> ''_field_changed''" by auto
      from Inr Some Cons.prems(1) kv obtain val m1 where
        "set_orig_attr m (name f) val = Inr m1" "populate_from_doc_dict m1 d = Inr m'"
        by (auto split: sum.splits)
      moreover from this(1) nm have k1: "field_changed m1 = field_changed m \<and> meta m1 = meta m"
        by (rule set_orig_attr_keeps)
      moreover from Cons.prems(2) k1
      have "\<forall>(k, v) \<in> set d. \<forall>f. get_field_by_column_name (meta m1) k = Inr (Some f) \<longrightarrow>
        name f \<noteq> ''_field_changed'' \<and> name f \<noteq> ''_id''" by simp
      ultimately show ?thesis using Cons.IH [of m1] by simp
    qed
  qed
qed

text \<open>
  C5 (amended). Hydration leaves the changed-fields log exactly as it was: it appends
  nothing and it removes nothing, so assignments made before the hydration remain
  recorded. This holds when no hydrated field is itself named \<^verbatim>\<open>_field_changed\<close>
  (whose value would replace the log) or \<^verbatim>\<open>_id\<close> (whose assignment runs the
  id setter).
\<close>

theorem populate_keeps_log:
  "populate_from_doc_dict m doc_dict = Inr m'
   \<and> (\<forall>(k, v) \<in> set doc_dict. \<forall>f.
         get_field_by_column_name (meta m) k = Inr (Some f) \<longrightarrow>
           name f \<noteq> ''_field_changed'' \<and> name f \<noteq> ''_id'')
   \<longrightarrow> field_changed m' = field_changed m"
  using populate_keeps by blast

theorem populate_keeps_log_witness:
  "populate_from_doc_dict (user_named ''Azeem'') [(''age'', PInt 25), (''unknown'', PInt 0)]
     = Inr ((user_named ''Azeem'')
              \<lparr>attrs := [''name'' \<mapsto> PStr ''Azeem'', ''age'' \<mapsto> PInt 25]\<rparr>)
   \<and> field_changed
        ((user_named ''Azeem'')\<lparr>attrs := [''name'' \<mapsto> PStr ''Azeem'', ''age'' \<mapsto> PInt 25]\<rparr>)
       = [''name'']"
  using populate_keeps_log
    [of "user_named ''Azeem''" "[(''age'', PInt 25), (''unknown'', PInt 0)]"
        "(user_named ''Azeem'')\<lparr>attrs := [''name'' \<mapsto> PStr ''Azeem'', ''age'' \<mapsto> PInt 25]\<rparr>"]
  by (simp add: user_named_def new_instance_def user_meta_def make_meta_def lookup_column_def
      plain_field_def set_orig_attr_def store_attr_def instance_slot_def data_attribute_def
      class_members_def typed_attributes_def)

text \<open>
  C5 as stated fails: \<^verbatim>\<open>name\<close> is assigned before the hydration and is still in
  the log after it.
\<close>

theorem populate_keeps_log_counterexample:
  "field_changed (user_named ''Azeem'') = [''name'']
   \<and> map_sum (\<lambda>e. e) field_changed
        (populate_from_doc_dict (user_named ''Azeem'')
           [(''name'', PStr ''Arfan''), (''age'', PInt 25)])
       = Inr [''name'']"
  by (simp add: user_named_def new_instance_def user_meta_def make_meta_def lookup_column_def
      plain_field_def set_orig_attr_def store_attr_def instance_slot_def data_attribute_def
      class_members_def typed_attributes_def)

section \<open>The id property and the public dictionary\<close>

text \<open>
  C3 (amended). The id getter reads through the designated id field's \<^verbatim>\<open>get_value\<close>
  when one is declared, and otherwise returns null: it does not read the bare
  \<^verbatim>\<open>id\<close> attribute. The setter assigns, through \<^verbatim>\<open>__setattr__\<close>, the
  attribute named by the id field when one is declared and the bare \<^verbatim>\<open>id\<close>
  otherwise, and for a falsy id that is all it does. When that attribute is a slot of the
  instance dictionary (as the bare \<^verbatim>\<open>id\<close> is): a falsy id is stored and the key
  stays as it was, a truthy id that is no string raises \<^verbatim>\<open>TypeError\<close>, and a
  non-empty string is stored and fixes the key to
  \<^verbatim>\<open>parent/collection_name/id\<close> with one leading separator removed, which the key
  property then returns whatever the attributes and the parent become.
\<close>

theorem id_property:
  "(id_field (meta m) = None \<longrightarrow> id_getter m = Inr PNone)
   \<and> (id_field (meta m) = Some (n, f) \<longrightarrow>
        id_getter m = get_value f (getattr m n) False False False)
   \<and> (let id_name = (case id_field (meta m) of None \<Rightarrow> ''id'' | Some (n, _) \<Rightarrow> n)
      in (\<not> truthy v \<longrightarrow> id_setter m v = setattr m id_name v)
       \<and> (instance_slot id_name \<longrightarrow>
            (\<not> truthy v \<longrightarrow>
               (\<exists>m'. id_setter m v = Inr m' \<and> getattr m' id_name = v
                  \<and> key_attr m' = key_attr m))
          \<and> (truthy v \<and> \<not> is_str v \<longrightarrow> id_setter m v = Inl TypeError)
          \<and> (s \<noteq> [] \<longrightarrow>
               (\<exists>m'. id_setter m (PStr s) = Inr m'
                  \<and> getattr m' id_name = PStr s
                  \<and> (let p = parent m @ ''/'' @ collection_name m @ ''/'' @ s;
                          fixed = (if hd p = CHR ''/'' then tl p else p)
                      in key_attr m' = Some fixed \<and> key m' = Inr fixed
                         \<and> (\<forall>a p'. key (m'\<lparr>attrs := a, parent := p'\<rparr>) = Inr fixed))))))"
proof -
  define id_name where "id_name = (case id_field (meta m) of None \<Rightarrow> ''id'' | Some (n, _) \<Rightarrow> n)"
  define fixed where "fixed = (let p = parent m @ ''/'' @ collection_name m @ ''/'' @ s
                  in if hd p = CHR ''/'' then tl p else p)"
  have g1: "id_field (meta m) = None \<longrightarrow> id_getter m = Inr PNone"
    by (simp add: id_getter_def)
  have g2: "id_field (meta m) = Some (n, f) \<longrightarrow>
        id_getter m = get_value f (getattr m n) False False False"
    by (simp add: id_getter_def)
  have s0: "\<not> truthy v \<longrightarrow> id_setter m v = setattr m id_name v"
  proof
    assume f: "\<not> truthy v"
    show "id_setter m v = setattr m id_name v"
    proof (cases "id_name = ''_id''")
      case True
      then have "id_setter m v = Inl RecursionError"
        by (simp add: id_setter_def id_name_def Let_def)
      moreover from True have "id_setter (track m ''_id'') v = Inl RecursionError"
        by (simp add: id_setter_def id_name_def Let_def track_simps)
      ultimately show ?thesis using True by (simp add: setattr_def set_orig_attr_def)
    next
      case False
      with f have "id_setter m v = store_attr (track m id_name) id_name v"
        by (cases "store_attr (track m id_name) id_name v")
           (simp_all add: id_setter_def id_name_def Let_def)
      with False show ?thesis by (simp add: setattr_store)
    qed
  qed
  have slot: "instance_slot id_name \<longrightarrow>
            (\<not> truthy v \<longrightarrow>
               (\<exists>m'. id_setter m v = Inr m' \<and> getattr m' id_name = v
                  \<and> key_attr m' = key_attr m))
          \<and> (truthy v \<and> \<not> is_str v \<longrightarrow> id_setter m v = Inl TypeError)
          \<and> (s \<noteq> [] \<longrightarrow>
               (\<exists>m'. id_setter m (PStr s) = Inr m'
                  \<and> getattr m' id_name = PStr s
                  \<and> key_attr m' = Some fixed \<and> key m' = Inr fixed
                  \<and> (\<forall>a p'. key (m'\<lparr>attrs := a, parent := p'\<rparr>) = Inr fixed)))"
  proof (intro impI conjI)
    assume sl: "instance_slot id_name"
    then have sl': "instance_slot (case id_field (meta m) of None \<Rightarrow> ''id'' | Some (n, _) \<Rightarrow> n)"
      by (simp add: id_name_def)
    note names = instance_slot_names [OF sl]
    have st: "id_setter m w =
       (if truthy w then set_key ((track m id_name)\<lparr>attrs := (attrs m)(id_name \<mapsto> w)\<rparr>) w
        else Inr ((track m id_name)\<lparr>attrs := (attrs m)(id_name \<mapsto> w)\<rparr>))" for w
      using id_setter_slot [OF sl'] by (simp add: Let_def id_name_def)
    have ga: "getattr ((track m id_name)\<lparr>attrs := (attrs m)(id_name \<mapsto> w)\<rparr>) id_name = w" for w
      using getattr_attrs_update [OF sl, of "track m id_name" w id_name]
      by (simp add: track_simps)
    {
      assume "\<not> truthy v"
      then have "id_setter m v = Inr ((track m id_name)\<lparr>attrs := (attrs m)(id_name \<mapsto> v)\<rparr>)"
        by (simp add: st)
      with ga [of v] show "\<exists>m'. id_setter m v = Inr m' \<and> getattr m' id_name = v
                  \<and> key_attr m' = key_attr m"
        by (simp add: track_simps)
    }
    {
      assume "truthy v \<and> \<not> is_str v"
      then show "id_setter m v = Inl TypeError"
        by (cases v) (simp_all add: st set_key_def py_join3)
    }
    {
      assume ne: "s \<noteq> []"
      define m1 where "m1 = (track m id_name)\<lparr>attrs := (attrs m)(id_name \<mapsto> PStr s)\<rparr>"
      define m' where "m' = (track m1 ''_key'')\<lparr>key_attr := Some fixed\<rparr>"
      from ne have "id_setter m (PStr s) = Inr m'"
        by (simp add: st set_key_str m'_def m1_def fixed_def track_simps)
      moreover have "getattr m' id_name = PStr s"
        using names ga [of "PStr s"]
        by (simp add: m'_def getattr_updates getattr_track m1_def)
      moreover have ka: "key_attr m' = Some fixed" by (simp add: m'_def)
      moreover from ne have fne: "fixed \<noteq> []" unfolding fixed_def by (rule strip_nonempty)
      with ka have "key m' = Inr fixed" by (rule key_fixed)
      moreover have "\<forall>a p'. key (m'\<lparr>attrs := a, parent := p'\<rparr>) = Inr fixed"
        using ka fne by (simp add: key_def)
      ultimately show "\<exists>m'. id_setter m (PStr s) = Inr m'
               \<and> getattr m' id_name = PStr s
               \<and> key_attr m' = Some fixed \<and> key m' = Inr fixed
               \<and> (\<forall>a p'. key (m'\<lparr>attrs := a, parent := p'\<rparr>) = Inr fixed)" by blast
    }
  qed
  from g1 g2 s0 slot show ?thesis
    unfolding id_name_def fixed_def Let_def by blast
qed

theorem id_property_witness:
  "id_getter (new_instance user_meta [] ''user'') = Inr PNone
   \<and> id_getter (account_with_id [] ''u1'') = Inr (PStr ''u1'')
   \<and> map_sum (\<lambda>e. e) key_attr (id_setter (new_instance user_meta ''org/acme'' ''user'') PNone)
       = Inr None
   \<and> id_setter (new_instance user_meta ''org/acme'' ''user'') (PInt 7) = Inl TypeError
   \<and> map_sum (\<lambda>e. e) key_attr
        (id_setter (new_instance account_meta ''org/acme'' ''user'') (PStr ''u1''))
       = Inr (Some ''org/acme/user/u1'')
   \<and> map_sum (\<lambda>e. e) (\<lambda>m'. getattr m' ''user_id'')
        (id_setter (new_instance account_meta ''org/acme'' ''user'') (PStr ''u1''))
       = Inr (PStr ''u1'')"
  using id_property [of "new_instance user_meta [] ''user''" "''id''" "plain_field ''id'' IDField"
                        PNone "''u1''"]
    id_property [of "account_with_id [] ''u1''"
                    "''user_id''" "plain_field ''user_id'' IDField" PNone "''u1''"]
    id_property [of "new_instance user_meta ''org/acme'' ''user''" "''id''"
                    "plain_field ''id'' IDField" "PInt 7" "''u1''"]
    id_property [of "new_instance account_meta ''org/acme'' ''user''" "''user_id''"
                    "plain_field ''user_id'' IDField" PNone "''u1''"]
  by (simp add: new_instance_def user_meta_def account_meta_def account_with_id_def
      make_meta_def plain_field_def id_getter_def id_setter_def set_key_def py_join_def
      store_attr_def instance_slot_def data_attribute_def class_members_def
      typed_attributes_def track_def getattr_def Let_def)

text \<open>
  C3 as stated fails: with no id field declared and the bare \<^verbatim>\<open>id\<close> attribute
  set to \<^verbatim>\<open>"u1"\<close>, the getter returns null.
\<close>

theorem id_getter_bare_id_counterexample:
  "setattr (new_instance user_meta [] ''user'') ''id'' (PStr ''u1'') = Inr user_bare_id
   \<and> id_field (meta user_bare_id) = None
   \<and> getattr user_bare_id ''id'' = PStr ''u1''
   \<and> id_getter user_bare_id = Inr PNone"
  by (simp add: user_bare_id_def new_instance_def user_meta_def make_meta_def id_getter_def
      setattr_def set_orig_attr_def store_attr_def instance_slot_def data_attribute_def
      class_members_def typed_attributes_def track_def getattr_def)

text \<open>
  C10. For an instance with no fixed key whose id getter yields no string, and whose
  fields serialize, \<^verbatim>\<open>to_dict\<close> returns a dictionary whose \<^verbatim>\<open>key\<close> entry is
  the instance's key, which contains the placeholder, and whose id entry (under the id
  field's name, \<^verbatim>\<open>id\<close> when none is declared) is the string
  \<^verbatim>\<open>@temp_doc_id\<close>, not null. (The entry \<^verbatim>\<open>key\<close> is written last, so an id
  field that was itself named \<^verbatim>\<open>key\<close> would be overwritten by it.)
\<close>

theorem to_dict_placeholder:
  "(key_attr m = None \<or> key_attr m = Some [])
   \<and> ((\<exists>v. id_getter m = Inr v \<and> \<not> is_str v) \<or> id_getter m = Inl TypeError)
   \<and> to_db_dict m False False False = Inr d
   \<longrightarrow> (\<exists>k d'. key m = Inr k \<and> str_contains ''@temp_doc_id'' k
          \<and> to_dict m = Inr d'
          \<and> map_of d' ''key'' = Some (PStr k)
          \<and> (let id_name = (case id_field (meta m) of None \<Rightarrow> ''id'' | Some (n, _) \<Rightarrow> n)
              in id_name \<noteq> ''key'' \<longrightarrow> map_of d' id_name = Some (PStr ''@temp_doc_id'')))"
proof (intro impI)
  assume a: "(key_attr m = None \<or> key_attr m = Some [])
   \<and> ((\<exists>v. id_getter m = Inr v \<and> \<not> is_str v) \<or> id_getter m = Inl TypeError)
   \<and> to_db_dict m False False False = Inr d"
  define k where "k = (let k = parent m @ ''/'' @ collection_name m @ ''/'' @ ''@temp_doc_id''
                      in if hd k = CHR ''/'' then tl k else k)"
  from a have key: "key m = Inr k"
    using key_unfixed_placeholder [of m] by (simp add: k_def)
  obtain pre where pre: "k = pre @ ''/'' @ ''@temp_doc_id''"
    unfolding k_def using strip_shape [of "parent m" "collection_name m" "''@temp_doc_id''"]
    by blast
  have "str_contains ''@temp_doc_id'' (pre @ ''/'' @ ''@temp_doc_id'' @ [])"
    using str_contains_append [of "''@temp_doc_id''" "pre @ ''/''" "[]"] by simp
  with pre have c: "str_contains ''@temp_doc_id'' k" by simp
  have "last (split_on (CHR ''/'') (pre @ CHR ''/'' # ''@temp_doc_id'')) = ''@temp_doc_id''"
    by (rule last_split_on) simp
  with pre have gid: "get_id (PStr k) = PStr ''@temp_doc_id''" by simp
  define id_name where "id_name = (case id_field (meta m) of None \<Rightarrow> ''id'' | Some (n, _) \<Rightarrow> n)"
  define d' where "d' = dict_set ''key'' (PStr k) (dict_set id_name (PStr ''@temp_doc_id'') d)"
  from a key gid have td: "to_dict m = Inr d'"
    by (simp add: to_dict_def d'_def id_name_def Let_def)
  have "map_of d' ''key'' = Some (PStr k)"
    by (simp add: d'_def map_of_dict_set)
  moreover have "id_name \<noteq> ''key'' \<longrightarrow> map_of d' id_name = Some (PStr ''@temp_doc_id'')"
    by (simp add: d'_def map_of_dict_set)
  ultimately show "\<exists>k d'. key m = Inr k \<and> str_contains ''@temp_doc_id'' k
          \<and> to_dict m = Inr d'
          \<and> map_of d' ''key'' = Some (PStr k)
          \<and> (let id_name = (case id_field (meta m) of None \<Rightarrow> ''id'' | Some (n, _) \<Rightarrow> n)
              in id_name \<noteq> ''key'' \<longrightarrow> map_of d' id_name = Some (PStr ''@temp_doc_id''))"
    using key c td unfolding id_name_def Let_def by blast
qed

theorem to_dict_placeholder_witness:
  "to_dict (user_named ''Azeem'')
     = Inr [(''name'', PStr ''Azeem''), (''age'', PNone),
            (''id'', PStr ''@temp_doc_id''), (''key'', PStr ''user/@temp_doc_id'')]"
  using to_dict_placeholder
    [of "user_named ''Azeem''" "[(''name'', PStr ''Azeem''), (''age'', PNone)]"]
  by (simp add: to_dict_def to_db_dict_def user_named_def new_instance_def user_meta_def
      make_meta_def plain_field_def getattr_def key_def id_getter_def py_join_def Let_def)

section \<open>Update\<close>




section \<open>Serialization\<close>

lemma dict_set_set: "set (dict_set k v d) \<subseteq> insert (k, v) (set d)"
proof (induction d)
  case Nil
  show ?case by simp
next
  case (Cons kv d)
  obtain k' v' where "kv = (k', v')" by (cases kv)
  with Cons show ?case by (cases "k' = k") auto
qed

lemma to_db_dict_loop_error:
  "to_db_dict_loop m ir idf co fs acc = Inl e \<longleftrightarrow>
     (\<exists>pre f post cause.
        fs = pre @ f # post
        \<and> (co \<longrightarrow> name f \<in> set (field_changed m))
        \<and> get_value f (getattr m (name f)) ir idf co = Inl cause
        \<and> (\<forall>g \<in> set pre. (co \<longrightarrow> name g \<in> set (field_changed m)) \<longrightarrow>
              (\<exists>v. get_value g (getattr m (name g)) ir idf co = Inr v))
        \<and> e = ModelSerializingWrappedError [name f] cause)"
  (is "?L fs acc \<longleftrightarrow> ?R fs")
proof (induction fs arbitrary: acc)
  case Nil
  show ?case by simp
next
  case (Cons g fs)
  have step: "?R (g # fs) \<longleftrightarrow>
      ((co \<longrightarrow> name g \<in> set (field_changed m))
        \<and> (\<exists>cause. get_value g (getattr m (name g)) ir idf co = Inl cause
              \<and> e = ModelSerializingWrappedError [name g] cause))
      \<or> (((co \<longrightarrow> name g \<in> set (field_changed m)) \<longrightarrow>
              (\<exists>v. get_value g (getattr m (name g)) ir idf co = Inr v)) \<and> ?R fs)"
    (is "_ \<longleftrightarrow> ?A \<or> (?B \<and> _)")
  proof
    assume "?R (g # fs)"
    then obtain pre f post cause where h:
      "g # fs = pre @ f # post" "co \<longrightarrow> name f \<in> set (field_changed m)"
      "get_value f (getattr m (name f)) ir idf co = Inl cause"
      "\<forall>g \<in> set pre. (co \<longrightarrow> name g \<in> set (field_changed m)) \<longrightarrow>
              (\<exists>v. get_value g (getattr m (name g)) ir idf co = Inr v)"
      "e = ModelSerializingWrappedError [name f] cause" by blast
    show "?A \<or> (?B \<and> ?R fs)"
    proof (cases pre)
      case Nil
      with h show ?thesis by auto
    next
      case (Cons p pre')
      with h have "p = g" "fs = pre' @ f # post" by auto
      with h Cons have "?B" by auto
      moreover from h Cons \<open>fs = pre' @ f # post\<close> have "?R fs" by auto
      ultimately show ?thesis by blast
    qed
  next
    assume "?A \<or> (?B \<and> ?R fs)"
    then show "?R (g # fs)"
    proof
      assume ?A
      then obtain cause where "co \<longrightarrow> name g \<in> set (field_changed m)"
        "get_value g (getattr m (name g)) ir idf co = Inl cause"
        "e = ModelSerializingWrappedError [name g] cause" by blast
      then have "g # fs = [] @ g # fs \<and> (co \<longrightarrow> name g \<in> set (field_changed m))
        \<and> get_value g (getattr m (name g)) ir idf co = Inl cause
        \<and> (\<forall>g \<in> set []. (co \<longrightarrow> name g \<in> set (field_changed m)) \<longrightarrow>
              (\<exists>v. get_value g (getattr m (name g)) ir idf co = Inr v))
        \<and> e = ModelSerializingWrappedError [name g] cause" by simp
      then show ?thesis by blast
    next
      assume "?B \<and> ?R fs"
      then obtain pre f post cause where h: ?B
        "fs = pre @ f # post" "co \<longrightarrow> name f \<in> set (field_changed m)"
        "get_value f (getattr m (name f)) ir idf co = Inl cause"
        "\<forall>g \<in> set pre. (co \<longrightarrow> name g \<in> set (field_changed m)) \<longrightarrow>
              (\<exists>v. get_value g (getattr m (name g)) ir idf co = Inr v)"
        "e = ModelSerializingWrappedError [name f] cause" by blast
      then have "g # fs = (g # pre) @ f # post \<and> (co \<longrightarrow> name f \<in> set (field_changed m))
        \<and> get_value f (getattr m (name f)) ir idf co = Inl cause
        \<and> (\<forall>g \<in> set (g # pre). (co \<longrightarrow> name g \<in> set (field_changed m)) \<longrightarrow>
              (\<exists>v. get_value g (getattr m (name g)) ir idf co = Inr v))
        \<and> e = ModelSerializingWrappedError [name f] cause" by simp
      then show ?thesis by blast
    qed
  qed
  show ?case
  proof (cases "co \<and> name g \<notin> set (field_changed m)")
    case True
    then have "?L (g # fs) acc \<longleftrightarrow> ?L fs acc" by simp
    also have "\<dots> \<longleftrightarrow> ?R fs" by (rule Cons.IH)
    also from True have "\<dots> \<longleftrightarrow> ?R (g # fs)" unfolding step by blast
    finally show ?thesis .
  next
    case False
    show ?thesis
    proof (cases "get_value g (getattr m (name g)) ir idf co")
      case (Inl cause)
      with False have "?L (g # fs) acc \<longleftrightarrow> e = ModelSerializingWrappedError [name g] cause"
        by auto
      also from False Inl have "\<dots> \<longleftrightarrow> ?R (g # fs)" unfolding step by auto
      finally show ?thesis .
    next
      case (Inr v)
      with False have "?L (g # fs) acc \<longleftrightarrow>
         ?L fs (if v \<noteq> PNone \<or> \<not> ignore_none_field (meta m)
                then dict_set (db_column_name g) v acc else acc)"
        by auto
      also have "\<dots> \<longleftrightarrow> ?R fs" by (rule Cons.IH)
      also from False Inr have "\<dots> \<longleftrightarrow> ?R (g # fs)" unfolding step by auto
      finally show ?thesis .
    qed
  qed
qed

text \<open>
  C7. \<^verbatim>\<open>to_db_dict\<close> raises exactly when the coercion of some field it processes
  raises, and the error is then the serialization error built from the first such field:
  its path is that one field's name, its cause is the exception that field's coercion
  raised, and every processed field before it was coerced without error. Nothing of a
  later field enters the error.
\<close>

theorem to_db_dict_error:
  "to_db_dict m ignore_required ignore_default changed_only = Inl e \<longleftrightarrow>
     (\<exists>pre f post cause.
        map snd (field_list (meta m)) = pre @ f # post
        \<and> (changed_only \<longrightarrow> name f \<in> set (field_changed m))
        \<and> get_value f (getattr m (name f)) ignore_required ignore_default changed_only
            = Inl cause
        \<and> (\<forall>g \<in> set pre. (changed_only \<longrightarrow> name g \<in> set (field_changed m)) \<longrightarrow>
              (\<exists>v. get_value g (getattr m (name g))
                      ignore_required ignore_default changed_only = Inr v))
        \<and> e = ModelSerializingWrappedError [name f] cause)"
  unfolding to_db_dict_def by (rule to_db_dict_loop_error)

theorem to_db_dict_error_witness:
  "to_db_dict order_titled False False False
     = Inl (ModelSerializingWrappedError [''qty''] (ExternalError ''required''))"
  using to_db_dict_error
    [of order_titled False False False
        "ModelSerializingWrappedError [''qty''] (ExternalError ''required'')"]
  by (simp add: to_db_dict_def order_titled_def new_instance_def order_meta_def make_meta_def
      plain_field_def required_field_def getattr_def)

lemma to_db_dict_loop_keys:
  "to_db_dict_loop m ir idf co fs acc = Inr d \<Longrightarrow>
     fst ` set d = fst ` set acc \<union>
       {db_column_name f | f. f \<in> set fs \<and> (co \<longrightarrow> name f \<in> set (field_changed m))
          \<and> (\<exists>v. get_value f (getattr m (name f)) ir idf co = Inr v
                \<and> (v \<noteq> PNone \<or> \<not> ignore_none_field (meta m)))}"
proof (induction fs arbitrary: acc)
  case Nil
  then show ?case by simp
next
  case (Cons g fs)
  show ?case
  proof (cases "co \<and> name g \<notin> set (field_changed m)")
    case True
    with Cons.prems have "to_db_dict_loop m ir idf co fs acc = Inr d" by simp
    from Cons.IH [OF this] True show ?thesis by auto
  next
    case False
    with Cons.prems obtain v where v: "get_value g (getattr m (name g)) ir idf co = Inr v"
      by (cases "get_value g (getattr m (name g)) ir idf co") auto
    show ?thesis
    proof (cases "v \<noteq> PNone \<or> \<not> ignore_none_field (meta m)")
      case True
      with False v Cons.prems
      have "to_db_dict_loop m ir idf co fs (dict_set (db_column_name g) v acc) = Inr d"
        by auto
      from Cons.IH [OF this] False v True show ?thesis
        by (auto simp: dict_set_keys)
    next
      case nv: False
      with False v Cons.prems have "to_db_dict_loop m ir idf co fs acc = Inr d" by auto
      from Cons.IH [OF this] False v nv show ?thesis by auto
    qed
  qed
qed

lemma to_db_dict_loop_ok:
  "to_db_dict_loop m ir idf co fs acc = Inr d \<Longrightarrow> f \<in> set fs \<Longrightarrow>
   co \<longrightarrow> name f \<in> set (field_changed m) \<Longrightarrow>
   \<exists>v. get_value f (getattr m (name f)) ir idf co = Inr v"
proof (induction fs arbitrary: acc)
  case Nil
  then show ?case by simp
next
  case (Cons g fs)
  show ?case
  proof (cases "f = g")
    case True
    with Cons.prems show ?thesis
      by (cases "get_value g (getattr m (name g)) ir idf co") (auto split: if_splits)
  next
    case False
    with Cons.prems have "f \<in> set fs" by simp
    moreover from Cons.prems(1) obtain acc' where "to_db_dict_loop m ir idf co fs acc' = Inr d"
      by (auto split: if_splits sum.splits)
    ultimately show ?thesis using Cons.IH Cons.prems(3) by blast
  qed
qed

lemma get_fields_loop_keys:
  "fst ` set (get_fields_loop m co fs acc) = fst ` set acc \<union>
     {name f | f. f \<in> set fs \<and> (\<not> co \<or> name f \<in> set (field_changed m)
          \<or> (kind f = MapField \<and> getattr m (name f) \<noteq> PNone))}"
proof (induction fs arbitrary: acc)
  case Nil
  show ?case by simp
next
  case (Cons g fs)
  show ?case
  proof (cases "\<not> co \<or> name g \<in> set (field_changed m)
          \<or> (kind g = MapField \<and> getattr m (name g) \<noteq> PNone)")
    case True
    then have "get_fields_loop m co (g # fs) acc
                 = get_fields_loop m co fs (dict_set (name g) (getattr m (name g)) acc)"
      by (simp add: Let_def)
    with Cons.IH [of "dict_set (name g) (getattr m (name g)) acc"] True show ?thesis
      by (auto simp: dict_set_keys)
  next
    case False
    then have "get_fields_loop m co (g # fs) acc = get_fields_loop m co fs acc"
      by (auto simp: Let_def)
    with Cons.IH [of acc] False show ?thesis by auto
  qed
qed

text \<open>
  C2 (amended). When \<^verbatim>\<open>to_db_dict(changed_only=True)\<close> returns, every field whose
  name is in the changed-fields log was coerced, and its storage column is in the result
  unless the coerced value is null and the model omits null fields; a storage column
  whose fields are all of non-map kind, and each either absent from the log or coerced to
  an omitted null, is not in the result. \<^verbatim>\<open>_get_fields(changed_only=True)\<close>
  includes a field exactly when its name is in the log or it is a map field whose current
  value is not null.
\<close>

theorem changed_only_filter:
  "(to_db_dict m ignore_required ignore_default True = Inr d \<longrightarrow>
      (\<forall>f \<in> set (map snd (field_list (meta m))).
          name f \<in> set (field_changed m) \<longrightarrow>
          (\<exists>v. get_value f (getattr m (name f)) ignore_required ignore_default True = Inr v
             \<and> (v \<noteq> PNone \<or> \<not> ignore_none_field (meta m) \<longrightarrow>
                  db_column_name f \<in> fst ` set d)))
    \<and> (\<forall>c. (\<forall>f \<in> set (map snd (field_list (meta m))).
                db_column_name f = c \<longrightarrow>
                  kind f \<noteq> MapField
                  \<and> (name f \<notin> set (field_changed m)
                     \<or> get_value f (getattr m (name f)) ignore_required ignore_default True
                          = Inr PNone \<and> ignore_none_field (meta m)))
             \<longrightarrow> c \<notin> fst ` set d))
   \<and> (n \<in> fst ` set (get_fields m True) \<longleftrightarrow>
        (\<exists>f \<in> set (map snd (field_list (meta m))).
            name f = n
            \<and> (n \<in> set (field_changed m) \<or> (kind f = MapField \<and> getattr m n \<noteq> PNone))))"
proof (intro conjI impI)
  assume d: "to_db_dict m ignore_required ignore_default True = Inr d"
  then have loop: "to_db_dict_loop m ignore_required ignore_default True
                     (map snd (field_list (meta m))) [] = Inr d"
    by (simp add: to_db_dict_def)
  note keys = to_db_dict_loop_keys [OF loop]
  show "\<forall>f \<in> set (map snd (field_list (meta m))).
          name f \<in> set (field_changed m) \<longrightarrow>
          (\<exists>v. get_value f (getattr m (name f)) ignore_required ignore_default True = Inr v
             \<and> (v \<noteq> PNone \<or> \<not> ignore_none_field (meta m) \<longrightarrow>
                  db_column_name f \<in> fst ` set d))"
  proof (intro ballI impI)
    fix f assume f: "f \<in> set (map snd (field_list (meta m)))"
      and ch: "name f \<in> set (field_changed m)"
    from to_db_dict_loop_ok [OF loop f] ch obtain v
      where v: "get_value f (getattr m (name f)) ignore_required ignore_default True = Inr v"
      by blast
    have "v \<noteq> PNone \<or> \<not> ignore_none_field (meta m) \<longrightarrow> db_column_name f \<in> fst ` set d"
      unfolding keys using f ch v by auto
    with v show "\<exists>v. get_value f (getattr m (name f)) ignore_required ignore_default True = Inr v
             \<and> (v \<noteq> PNone \<or> \<not> ignore_none_field (meta m) \<longrightarrow>
                  db_column_name f \<in> fst ` set d)" by blast
  qed
  show "\<forall>c. (\<forall>f \<in> set (map snd (field_list (meta m))).
                db_column_name f = c \<longrightarrow>
                  kind f \<noteq> MapField
                  \<and> (name f \<notin> set (field_changed m)
                     \<or> get_value f (getattr m (name f)) ignore_required ignore_default True
                          = Inr PNone \<and> ignore_none_field (meta m)))
             \<longrightarrow> c \<notin> fst ` set d"
    unfolding keys by auto
next
  show "n \<in> fst ` set (get_fields m True) \<longleftrightarrow>
        (\<exists>f \<in> set (map snd (field_list (meta m))).
            name f = n
            \<and> (n \<in> set (field_changed m) \<or> (kind f = MapField \<and> getattr m n \<noteq> PNone)))"
    unfolding get_fields_def get_fields_loop_keys by auto
qed

theorem changed_only_filter_witness:
  "to_db_dict profile_bio False False True = Inr [(''bio'', PStr ''hi'')]
   \<and> ''bio'' \<in> fst ` set [(''bio'', PStr ''hi'')]
   \<and> ''nick'' \<notin> fst ` set [(''bio'', PStr ''hi'')]
   \<and> ''settings'' \<in> fst ` set (get_fields profile_bio True)"
  using changed_only_filter
    [of profile_bio False False "[(''bio'', PStr ''hi'')]" "''settings''"]
  by (simp add: profile_bio_def profile_def profile_meta_def new_instance_def make_meta_def
      plain_field_def to_db_dict_def get_fields_def getattr_def)

text \<open>
  C2 as stated fails for \<^verbatim>\<open>to_db_dict\<close>: \<^verbatim>\<open>nick\<close> is in the log and is
  left out (its value is null and null fields are omitted), and the map field
  \<^verbatim>\<open>settings\<close>, not null and never assigned, is left out too, while
  \<^verbatim>\<open>_get_fields\<close> includes both.
\<close>

theorem changed_only_filter_counterexample:
  "''nick'' \<in> set (field_changed profile)
   \<and> ''settings'' \<notin> set (field_changed profile)
   \<and> getattr profile ''settings'' = PDict [(''theme'', PStr ''dark'')]
   \<and> to_db_dict profile False False True = Inr []
   \<and> get_fields profile True
       = [(''nick'', PNone), (''settings'', PDict [(''theme'', PStr ''dark'')])]"
  by (simp add: profile_def profile_meta_def new_instance_def make_meta_def plain_field_def
      to_db_dict_def get_fields_def getattr_def)

section \<open>Round trip\<close>

lemma to_db_dict_loop_same_values:
  "(\<And>f. f \<in> set fs \<Longrightarrow> getattr m' (name f) = getattr m (name f)) \<Longrightarrow>
   meta m' = meta m \<Longrightarrow>
   to_db_dict_loop m' ir idf False fs acc = to_db_dict_loop m ir idf False fs acc"
proof (induction fs arbitrary: acc)
  case Nil
  show ?case by simp
next
  case (Cons g fs)
  have g: "getattr m' (name g) = getattr m (name g)" by (rule Cons.prems(1)) simp
  have rest: "to_db_dict_loop m' ir idf False fs acc' = to_db_dict_loop m ir idf False fs acc'"
    for acc'
    by (rule Cons.IH) (simp_all add: Cons.prems)
  show ?case
    by (cases "get_value g (getattr m (name g)) ir idf False")
       (simp_all add: g rest Cons.prems(2))
qed

lemma to_db_dict_loop_entries:
  "to_db_dict_loop m ir idf co fs acc = Inr d \<Longrightarrow> (c, v) \<in> set d \<Longrightarrow>
   (c, v) \<in> set acc
   \<or> (\<exists>f \<in> set fs. db_column_name f = c \<and> get_value f (getattr m (name f)) ir idf co = Inr v)"
proof (induction fs arbitrary: acc)
  case Nil
  then show ?case by simp
next
  case (Cons g fs)
  show ?case
  proof (cases "co \<and> name g \<notin> set (field_changed m)")
    case True
    with Cons.prems have "to_db_dict_loop m ir idf co fs acc = Inr d" by simp
    from Cons.IH [OF this Cons.prems(2)] show ?thesis by auto
  next
    case False
    with Cons.prems obtain w where w: "get_value g (getattr m (name g)) ir idf co = Inr w"
      by (cases "get_value g (getattr m (name g)) ir idf co") auto
    show ?thesis
    proof (cases "w \<noteq> PNone \<or> \<not> ignore_none_field (meta m)")
      case True
      with False w Cons.prems
      have "to_db_dict_loop m ir idf co fs (dict_set (db_column_name g) w acc) = Inr d"
        by auto
      from Cons.IH [OF this Cons.prems(2)] w dict_set_set [of "db_column_name g" w acc]
      show ?thesis by auto
    next
      case nv: False
      with False w Cons.prems have "to_db_dict_loop m ir idf co fs acc = Inr d" by auto
      from Cons.IH [OF this Cons.prems(2)] show ?thesis by auto
    qed
  qed
qed

lemma populate_writes_values:
  assumes lookup: "\<forall>f \<in> set (map snd (field_list (meta m))).
             get_field_by_column_name (meta m) (db_column_name f) = Inr (Some f)"
    and inverse: "\<forall>f \<in> set (map snd (field_list (meta m))). \<forall>a v owner.
             get_value f a False False False = Inr v \<longrightarrow> field_value f v owner = Inr a"
    and names: "\<forall>f \<in> set (map snd (field_list (meta m))). data_attribute (name f)"
  shows "\<forall>(c, v) \<in> set D. \<exists>f \<in> set (map snd (field_list (meta m))).
            db_column_name f = c
            \<and> get_value f (getattr m (name f)) False False False = Inr v \<Longrightarrow>
         meta mx = meta m \<Longrightarrow>
         \<exists>mx'. populate_from_doc_dict mx D = Inr mx' \<and> meta mx' = meta m
           \<and> (\<forall>n. getattr mx n = getattr m n
                    \<or> (\<exists>f \<in> set (map snd (field_list (meta m))).
                          name f = n \<and> db_column_name f \<in> fst ` set D)
                  \<longrightarrow> getattr mx' n = getattr m n)"
proof (induction D arbitrary: mx)
  case Nil
  then show ?case by simp
next
  case (Cons cv D)
  obtain c v where cv: "cv = (c, v)" by (cases cv)
  with Cons.prems(1) obtain f where f: "f \<in> set (map snd (field_list (meta m)))"
    "db_column_name f = c" "get_value f (getattr m (name f)) False False False = Inr v"
    by auto
  from lookup f have lk: "get_field_by_column_name (meta m) c = Inr (Some f)" by auto
  from inverse f
  have fv: "field_value f v (instance_attrs.truncate mx) = Inr (getattr m (name f))"
    by blast
  from names f have da: "data_attribute (name f)" by blast
  then have nid: "name f \<noteq> ''_id''" by (simp add: data_attribute_names)
  from store_attr_write_back [OF da, of mx m] obtain m1
    where st: "store_attr mx (name f) (getattr m (name f)) = Inr m1" by blast
  with nid have so: "set_orig_attr mx (name f) (getattr m (name f)) = Inr m1"
    by (simp add: set_orig_attr_store)
  from st have g1: "getattr m1 n = (if n = name f then getattr m (name f) else getattr mx n)"
    for n by (rule store_attr_getattr)
  from st Cons.prems(2) have meta1: "meta m1 = meta m" by (simp add: store_attr_meta)
  from Cons.prems(1) have restD: "\<forall>(c, v) \<in> set D. \<exists>f \<in> set (map snd (field_list (meta m))).
            db_column_name f = c
            \<and> get_value f (getattr m (name f)) False False False = Inr v" by simp
  from Cons.IH [OF restD meta1] obtain mx' where
    mx': "populate_from_doc_dict m1 D = Inr mx'" "meta mx' = meta m"
    and vals: "\<And>n. getattr m1 n = getattr m n
                    \<or> (\<exists>f \<in> set (map snd (field_list (meta m))).
                          name f = n \<and> db_column_name f \<in> fst ` set D)
                  \<Longrightarrow> getattr mx' n = getattr m n"
    by blast
  from cv lk fv so mx'(1) Cons.prems(2)
  have run: "populate_from_doc_dict mx (cv # D) = Inr mx'" by simp
  have "getattr mx' n = getattr m n"
    if h: "getattr mx n = getattr m n
           \<or> (\<exists>g \<in> set (map snd (field_list (meta m))).
                 name g = n \<and> db_column_name g \<in> fst ` set (cv # D))" for n
  proof (rule vals)
    from h show "getattr m1 n = getattr m n
                    \<or> (\<exists>f \<in> set (map snd (field_list (meta m))).
                          name f = n \<and> db_column_name f \<in> fst ` set D)"
    proof
      assume "getattr mx n = getattr m n"
      then show ?thesis by (simp add: g1)
    next
      assume "\<exists>g \<in> set (map snd (field_list (meta m))).
                 name g = n \<and> db_column_name g \<in> fst ` set (cv # D)"
      then obtain g where g: "g \<in> set (map snd (field_list (meta m)))" "name g = n"
        "db_column_name g \<in> fst ` set (cv # D)" by blast
      show ?thesis
      proof (cases "db_column_name g = c")
        case True
        with lookup g(1) lk have "g = f" by auto
        with g(2) show ?thesis by (simp add: g1)
      next
        case False
        with g(3) cv have "db_column_name g \<in> fst ` set D" by auto
        with g(1,2) show ?thesis by blast
      qed
    qed
  qed
  with run mx'(2) show ?case by blast
qed

text \<open>
  C6. Let \<open>D\<close> be the dictionary \<^verbatim>\<open>to_db_dict()\<close> returns for an instance
  \<open>m\<close>, with no field omitted from it for being null. Let the registry find each
  registered field by its storage column, let each descriptor's \<^verbatim>\<open>field_value\<close>
  invert its \<^verbatim>\<open>get_value\<close>, and let every registered field be named as a data
  attribute. Then hydrating any instance of the same model from \<open>D\<close>, \<open>m\<close>
  itself or one in any other state, succeeds, gives it the field values of \<open>m\<close>,
  and \<^verbatim>\<open>to_db_dict()\<close> on the hydrated instance returns \<open>D\<close> again.
\<close>

theorem round_trip:
  assumes "to_db_dict m False False False = Inr D"
    and "meta m2 = meta m"
    and "\<forall>f \<in> set (map snd (field_list (meta m))).
           get_field_by_column_name (meta m) (db_column_name f) = Inr (Some f)"
    and "\<forall>f \<in> set (map snd (field_list (meta m))). \<forall>a v owner.
           get_value f a False False False = Inr v \<longrightarrow> field_value f v owner = Inr a"
    and "\<forall>f \<in> set (map snd (field_list (meta m))).
           get_value f (getattr m (name f)) False False False = Inr PNone \<longrightarrow>
           \<not> ignore_none_field (meta m)"
    and "\<forall>f \<in> set (map snd (field_list (meta m))). data_attribute (name f)"
  shows "\<exists>m2'. populate_from_doc_dict m2 D = Inr m2'
            \<and> (\<forall>f \<in> set (map snd (field_list (meta m))).
                  getattr m2' (name f) = getattr m (name f))
            \<and> to_db_dict m2' False False False = Inr D"
proof -
  let ?fs = "map snd (field_list (meta m))"
  from assms(1) have loop: "to_db_dict_loop m False False False ?fs [] = Inr D"
    by (simp add: to_db_dict_def)
  have ent: "\<forall>(c, v) \<in> set D. \<exists>f \<in> set ?fs.
            db_column_name f = c
            \<and> get_value f (getattr m (name f)) False False False = Inr v"
    using to_db_dict_loop_entries [OF loop] by auto
  have all_in: "db_column_name f \<in> fst ` set D" if f: "f \<in> set ?fs" for f
  proof -
    from to_db_dict_loop_ok [OF loop f] obtain v
      where v: "get_value f (getattr m (name f)) False False False = Inr v" by auto
    with assms(5) f have "v \<noteq> PNone \<or> \<not> ignore_none_field (meta m)" by auto
    with f v show ?thesis unfolding to_db_dict_loop_keys [OF loop] by auto
  qed
  from populate_writes_values [OF assms(3) assms(4) assms(6) ent assms(2)]
  obtain m2' where run: "populate_from_doc_dict m2 D = Inr m2'" and meta': "meta m2' = meta m"
    and vals: "\<And>n. getattr m2 n = getattr m n
                    \<or> (\<exists>f \<in> set ?fs. name f = n \<and> db_column_name f \<in> fst ` set D)
                  \<Longrightarrow> getattr m2' n = getattr m n"
    by blast
  have same: "getattr m2' (name f) = getattr m (name f)" if "f \<in> set ?fs" for f
    using that all_in [OF that] by (intro vals) blast
  have "to_db_dict_loop m2' False False False ?fs [] = to_db_dict_loop m False False False ?fs []"
    by (rule to_db_dict_loop_same_values) (simp_all only: same meta')
  with loop meta' have "to_db_dict m2' False False False = Inr D"
    by (simp add: to_db_dict_def)
  with run same show ?thesis by blast
qed

theorem round_trip_witness:
  "to_db_dict (user_full ''Azeem'' 25) False False False
     = Inr [(''name'', PStr ''Azeem''), (''age'', PInt 25)]
   \<and> to_db_dict (user_named ''Old'') False False False
     = Inr [(''name'', PStr ''Old''), (''age'', PNone)]
   \<and> (case populate_from_doc_dict (user_named ''Old'')
             [(''name'', PStr ''Azeem''), (''age'', PInt 25)] of
         Inl e \<Rightarrow> False
       | Inr m' \<Rightarrow> getattr m' ''name'' = PStr ''Azeem''
                  \<and> to_db_dict m' False False False
                      = Inr [(''name'', PStr ''Azeem''), (''age'', PInt 25)])"
  using round_trip
    [of "user_full ''Azeem'' 25" "[(''name'', PStr ''Azeem''), (''age'', PInt 25)]"
        "user_named ''Old''"]
  by (simp add: to_db_dict_def user_full_def user_named_def new_instance_def user_meta_def
      make_meta_def plain_field_def lookup_column_def set_orig_attr_def store_attr_def
      instance_slot_def data_attribute_def class_members_def typed_attributes_def getattr_def)

end
